theory Spec2Isabelle
  imports Main "HOL-Library.Word"
begin

section \<open>The process monitor of \<open>zygisk/hide/monitor.cpp\<close>\<close>

text \<open>
  The monitor traces the zygote processes, is told of every child they fork, and decides
  for each child whether it is a hide target. The file is a C++ translation unit made of
  global variables and functions with system-call effects. The embedding keeps the
  globals in one record (\<open>mstate\<close>), passes it through every function, and records the
  calls that act on other processes (ptrace, kill, the hide daemon, worker threads) in a
  trace in call order. Everything the program reads from the system (proc files, wait
  results, the external predicate \<open>is_hide_target\<close>) comes from an environment \<open>env\<close>;
  reads are indexed by a clock that every read and every sleep advances, so that the same
  file may read differently each time it is read.
\<close>

subsection \<open>Data\<close>

text \<open>The fields of \<open>struct stat\<close> that the monitor reads.\<close>

record stat =
  st_dev :: "64 word"
  st_ino :: "64 word"
  st_uid :: "32 word"

text \<open>
  What opening a proc file and calling \<open>fgets\<close> once gives: the file cannot be opened,
  \<open>fgets\<close> reads nothing (and leaves the buffer as it was), or \<open>fgets\<close> reads a line;
  \<open>Line l\<close> carries the line as a C string (up to its first NUL).
\<close>

datatype fread = OpenFail | Eof | Line string

datatype ptrace_option = TRACEFORK | TRACEVFORK | TRACECLONE | TRACEEXEC | TRACEEXIT

text \<open>The calls that act on other processes or threads, as the trace records them.\<close>

datatype event =
    PtraceAttach int
  | PtraceSetOptions int "ptrace_option set"
  | PtraceCont int int
  | PtraceDetach int int
  | PtraceGetEventMsg int
  | Waitpid int
  | Kill int int
  | IsHideTarget int string int
  | HideDaemon int
  | NewDaemonThread
  | UpdateUidMap
  | Usleep nat
  | Nanosleep

text \<open>The three signals the monitor handles, and what \<open>sigaction\<close> can install for them.\<close>

datatype asig = SIGTERMTHRD | SIGIO | SIGALRM

datatype handler = SIG_DFL | SIG_IGN | H_term_thread | H_inotify_event | H_check_zygote

datatype error = BitsetOutOfRange

datatype inmask = IN_CLOSE_WRITE | IN_ACCESS

text \<open>
  The environment. \<open>lp64\<close> is the compile-time \<open>__LP64__\<close>. \<open>WEVENT\<close> is a macro of
  \<open>hide.hpp\<close>, which is not among the sources, and is taken as a parameter. The
  \<open>uninit_\<close> fields are the indeterminate first contents of the local buffers that the
  code reads without having written them when a read gives nothing.
\<close>

record env =
  lp64 :: bool
  sys_stat_proc :: "nat \<Rightarrow> int \<Rightarrow> stat option"
  sys_stat_ns :: "nat \<Rightarrow> int \<Rightarrow> stat option"
  sys_read_attr :: "nat \<Rightarrow> int \<Rightarrow> fread"
  sys_read_cmdline :: "nat \<Rightarrow> int \<Rightarrow> fread"
  sys_read_ppid :: "nat \<Rightarrow> int \<Rightarrow> int option"
  sys_read_status :: "nat \<Rightarrow> int \<Rightarrow> string list option"
  sys_procfs :: "nat \<Rightarrow> int list"
  sys_geteventmsg :: "nat \<Rightarrow> int \<Rightarrow> nat"
  sys_inotify_init :: "nat \<Rightarrow> int"
  sys_access :: "nat \<Rightarrow> string \<Rightarrow> bool"
  sys_poll_inotify :: "nat \<Rightarrow> (inmask set \<times> string) option"
  ext_is_hide_target :: "int \<Rightarrow> string \<Rightarrow> int \<Rightarrow> bool"
  WEVENT :: "int \<Rightarrow> int"
  uninit_context :: string
  uninit_cmdline :: string
  uninit_key :: string
  uninit_tgid :: int

text \<open>
  The globals of the file (\<open>zygote_map\<close>, \<open>attaches\<close>, \<open>fork_pid\<close>, \<open>inotify_fd\<close>), the
  local \<open>orig_mask\<close> of \<open>proc_monitor\<close>, and the part of the kernel's state that the
  file sets: the interval of \<open>ITIMER_REAL\<close> in microseconds (0 is disarmed), the
  handlers and the mask of the three signals, the open descriptors, the inotify watches,
  and whether the monitor thread has exited.

  \<open>zygote_map\<close> is a \<open>std::map\<close>: an association list kept in key order with one entry
  per key. \<open>attaches\<close> is the \<open>bitset\<close> of \<open>PID_MAX\<close> bits inside \<open>pid_set\<close>, as the set of the
  positions whose bit is set.
\<close>

record mstate =
  zygote_map :: "(int \<times> stat) list"
  attaches :: "nat set"
  fork_pid :: int
  inotify_fd :: int
  orig_mask :: "asig set"
  clock :: nat
  trace :: "event list"
  itimer :: nat
  handlers :: "asig \<Rightarrow> handler"
  sigmask :: "asig set"
  open_fds :: "int set"
  watches :: "(string \<times> inmask) list"
  exited :: bool

definition tick :: "mstate \<Rightarrow> mstate" where
  "tick s = s\<lparr>clock := Suc (clock s)\<rparr>"

definition emit :: "event \<Rightarrow> mstate \<Rightarrow> mstate" where
  "emit e s = s\<lparr>trace := trace s @ [e]\<rparr>"

subsection \<open>Constants of the platform\<close>

definition SIGTRAP :: int where "SIGTRAP = 5"
definition SIGCONT :: int where "SIGCONT = 18"
definition SIGSTOP :: int where "SIGSTOP = 19"
definition ECHILD :: int where "ECHILD = 10"

definition PTRACE_EVENT_FORK :: int where "PTRACE_EVENT_FORK = 1"
definition PTRACE_EVENT_VFORK :: int where "PTRACE_EVENT_VFORK = 2"
definition PTRACE_EVENT_EXIT :: int where "PTRACE_EVENT_EXIT = 6"

text \<open>The wait-status macros of the C library, on the \<open>int\<close> status.\<close>

definition WIFSTOPPED :: "int \<Rightarrow> bool" where
  "WIFSTOPPED status = (status mod 256 = 127)"

definition WSTOPSIG :: "int \<Rightarrow> int" where
  "WSTOPSIG status = (status div 256) mod 256"

subsection \<open>\<open>pid_set\<close>\<close>

definition PID_MAX :: nat where "PID_MAX = 32768"

text \<open>
  \<open>operator[]\<close> takes a \<open>size_t\<close>: 64 bits wide under \<open>__LP64__\<close>, 32 otherwise. An
  \<open>int\<close> argument is converted modulo the width, and \<open>pos - 1\<close> wraps.
\<close>

definition size_t_bits :: "bool \<Rightarrow> nat" where
  "size_t_bits lp = (if lp then 64 else 32)"

definition to_size_t :: "bool \<Rightarrow> int \<Rightarrow> nat" where
  "to_size_t lp i = nat (i mod 2 ^ size_t_bits lp)"

definition pid_set_index :: "bool \<Rightarrow> nat \<Rightarrow> nat" where
  "pid_set_index lp pos = (pos + 2 ^ size_t_bits lp - 1) mod 2 ^ size_t_bits lp"

text \<open>
  \<open>std::bitset::operator[]\<close> does not check its index; an index outside the bitset is
  undefined behaviour, which the model returns as an error.
\<close>

definition pid_set_get :: "bool \<Rightarrow> nat set \<Rightarrow> nat \<Rightarrow> error + bool" where
  "pid_set_get lp a pos =
     (let i = pid_set_index lp pos
      in if i < PID_MAX then Inr (i \<in> a) else Inl BitsetOutOfRange)"

definition pid_set_put :: "bool \<Rightarrow> nat set \<Rightarrow> nat \<Rightarrow> bool \<Rightarrow> error + nat set" where
  "pid_set_put lp a pos b =
     (let i = pid_set_index lp pos
      in if i < PID_MAX then Inr (if b then insert i a else a - {i})
         else Inl BitsetOutOfRange)"

definition pid_set_reset :: "nat set \<Rightarrow> nat set" where
  "pid_set_reset a = {}"

subsection \<open>\<open>std::map\<close> operations used on \<open>zygote_map\<close>\<close>

fun map_assign :: "(int \<times> 'v) list \<Rightarrow> int \<Rightarrow> 'v \<Rightarrow> (int \<times> 'v) list" where
  "map_assign [] k v = [(k, v)]"
| "map_assign ((k', v') # m) k v =
     (if k < k' then (k, v) # (k', v') # m
      else if k = k' then (k, v) # m
      else (k', v') # map_assign m k v)"

definition map_find :: "(int \<times> 'v) list \<Rightarrow> int \<Rightarrow> 'v option" where
  "map_find m k = map_of m k"

definition map_count :: "(int \<times> 'v) list \<Rightarrow> int \<Rightarrow> nat" where
  "map_count m k = (if map_find m k = None then 0 else 1)"

definition map_erase :: "(int \<times> 'v) list \<Rightarrow> int \<Rightarrow> (int \<times> 'v) list" where
  "map_erase m k = filter (\<lambda>e. fst e \<noteq> k) m"

definition map_size :: "(int \<times> 'v) list \<Rightarrow> nat" where
  "map_size m = length m"

subsection \<open>Utils\<close>

text \<open>\<open>fgets(buf, size, f)\<close> on a freshly opened file: at most \<open>size - 1\<close> characters.\<close>

definition fgets :: "nat \<Rightarrow> fread \<Rightarrow> string \<Rightarrow> string" where
  "fgets n r buf = (case r of Line l \<Rightarrow> take (n - 1) l | _ \<Rightarrow> buf)"

definition read_ns :: "env \<Rightarrow> int \<Rightarrow> stat \<Rightarrow> mstate \<Rightarrow> int \<times> stat \<times> mstate" where
  "read_ns e pid st s =
     (case sys_stat_ns e (clock s) pid of
        None \<Rightarrow> (- 1, st, tick s)
      | Some st' \<Rightarrow> (0, st', tick s))"

text \<open>
  \<open>parse_ppid\<close>: \<open>sys_read_ppid\<close> is \<open>None\<close> when the stat file cannot be opened, and
  otherwise the value of \<open>ppid\<close> after the \<open>fscanf\<close>.
\<close>

definition parse_ppid :: "env \<Rightarrow> int \<Rightarrow> mstate \<Rightarrow> int \<times> mstate" where
  "parse_ppid e pid s =
     (case sys_read_ppid e (clock s) pid of
        None \<Rightarrow> (- 1, tick s)
      | Some ppid \<Rightarrow> (ppid, tick s))"

definition is_zygote_done :: "bool \<Rightarrow> mstate \<Rightarrow> bool" where
  "is_zygote_done lp s =
     (if lp then map_size (zygote_map s) \<ge> 2 else map_size (zygote_map s) \<ge> 1)"

text \<open>\<open>sprintf\<close> of \<open>%d\<close>, for the path that \<open>check_zygote\<close> leaves in its buffer.\<close>

fun decimal_nat :: "nat \<Rightarrow> string" where
  "decimal_nat n =
     (if n < 10 then [char_of (48 + n)]
      else decimal_nat (n div 10) @ [char_of (48 + n mod 10)])"

declare decimal_nat.simps [simp del]

definition decimal :: "int \<Rightarrow> string" where
  "decimal i = (if i < 0 then CHR ''-'' # decimal_nat (nat (- i)) else decimal_nat (nat i))"

subsection \<open>Discovery: \<open>new_zygote\<close> and \<open>check_zygote\<close>\<close>

definition new_zygote :: "env \<Rightarrow> int \<Rightarrow> mstate \<Rightarrow> mstate" where
  "new_zygote e pid s =
     (case read_ns e pid \<lparr>st_dev = 0, st_ino = 0, st_uid = 0\<rparr> s of
        (rc, st, s1) \<Rightarrow>
          if rc \<noteq> 0 then s1
          else (case map_find (zygote_map s1) pid of
                  Some old \<Rightarrow> s1\<lparr>zygote_map := map_assign (zygote_map s1) pid st\<rparr>
                | None \<Rightarrow>
                    emit (PtraceCont pid 0)
                      (emit (PtraceSetOptions pid {TRACEFORK, TRACEVFORK, TRACEEXIT})
                        (tick (emit (Waitpid pid)
                          (emit (PtraceAttach pid)
                            (s1\<lparr>zygote_map := map_assign (zygote_map s1) pid st\<rparr>)))))))"

text \<open>
  The callback that \<open>check_zygote\<close> gives to \<open>crawl_procfs\<close>. Its buffer holds the path
  when \<open>fgets\<close> is called. It returns true for every pid, so the crawl visits them all.
\<close>

definition check_zygote_pid :: "env \<Rightarrow> int \<Rightarrow> mstate \<Rightarrow> mstate" where
  "check_zygote_pid e pid s =
     (case sys_read_cmdline e (clock s) pid of
        OpenFail \<Rightarrow> tick s
      | r \<Rightarrow>
          let buf = fgets 512 r (''/proc/'' @ decimal pid @ ''/cmdline'');
              s1 = tick s
          in if take 6 buf = ''zygote''
             then (case parse_ppid e pid s1 of
                     (ppid, s2) \<Rightarrow> if ppid = 1 then new_zygote e pid s2 else s2)
             else s1)"

text \<open>
  Modelled from the spec: \<open>crawl_procfs\<close> (a utility that is not among the sources)
  enumerates the live pids and calls the callback on each, going on while the callback
  returns true. The pids are those that the proc directory lists when the crawl starts.
\<close>

definition crawl_procfs :: "env \<Rightarrow> (int \<Rightarrow> mstate \<Rightarrow> mstate) \<Rightarrow> mstate \<Rightarrow> mstate" where
  "crawl_procfs e f s = fold f (sys_procfs e (clock s)) (tick s)"

definition check_zygote :: "env \<Rightarrow> mstate \<Rightarrow> mstate" where
  "check_zygote e s =
     (let s1 = crawl_procfs e (check_zygote_pid e) s
      in if is_zygote_done (lp64 e) s1 then s1\<lparr>itimer := 0\<rparr> else s1)"

definition APP_PROC :: string where
  "APP_PROC = ''/system/bin/app_process''"

text \<open>
  \<open>setup_inotify\<close>. The two \<open>fcntl\<close> calls, which make the descriptor raise \<open>SIGIO\<close> on
  the monitor thread, change nothing that the model keeps.
\<close>

definition setup_inotify :: "env \<Rightarrow> mstate \<Rightarrow> mstate" where
  "setup_inotify e s =
     (let fd = sys_inotify_init e (clock s);
          s1 = (tick s)\<lparr>inotify_fd := fd\<rparr>
      in if fd < 0 then s1
         else
           let s2 = s1\<lparr>open_fds := insert fd (open_fds s1),
                       watches := watches s1 @ [(''/data/system'', IN_CLOSE_WRITE)]\<rparr>
           in if sys_access e (clock s2) (APP_PROC @ ''32'')
              then
                let s3 = (tick s2)\<lparr>watches := watches s2 @ [(APP_PROC @ ''32'', IN_ACCESS)]\<rparr>
                in if sys_access e (clock s3) (APP_PROC @ ''64'')
                   then (tick s3)\<lparr>watches := watches s3 @ [(APP_PROC @ ''64'', IN_ACCESS)]\<rparr>
                   else tick s3
              else (tick s2)\<lparr>watches := watches s2 @ [(APP_PROC, IN_ACCESS)]\<rparr>)"

subsection \<open>Signal handlers\<close>

definition inotify_event :: "env \<Rightarrow> mstate \<Rightarrow> mstate" where
  "inotify_event e s =
     (case sys_poll_inotify e (clock s) of
        None \<Rightarrow> tick s
      | Some (evmask, name) \<Rightarrow>
          let s1 = tick s;
              s2 = (if IN_CLOSE_WRITE \<in> evmask \<and> name = ''packages.xml''
                    then emit UpdateUidMap s1 else s1)
          in check_zygote e s2)"

text \<open>
  \<open>close(fd)\<close> on the open descriptors: a negative \<open>fd\<close> is no descriptor, the call
  fails and closes nothing.
\<close>

definition sys_close :: "int \<Rightarrow> int set \<Rightarrow> int set" where
  "sys_close fd fds = (if fd < 0 then fds else fds - {fd})"

text \<open>
  \<open>term_thread\<close>. \<open>sigfillset\<close> with \<open>SIG_BLOCK\<close> blocks every signal; \<open>pthread_exit\<close>
  ends the thread.
\<close>

definition term_thread :: "mstate \<Rightarrow> mstate" where
  "term_thread s =
     s\<lparr>zygote_map := [],
       attaches := pid_set_reset (attaches s),
       open_fds := sys_close (inotify_fd s) (open_fds s),
       inotify_fd := - 1,
       sigmask := UNIV,
       handlers := (handlers s)(SIGTERMTHRD := SIG_DFL, SIGIO := SIG_DFL, SIGALRM := SIG_DFL),
       exited := True\<rparr>"

subsection \<open>Ptrace\<close>

definition detach_pid :: "env \<Rightarrow> int \<Rightarrow> int \<Rightarrow> mstate \<Rightarrow> error + mstate" where
  "detach_pid e pid signal s =
     (case pid_set_put (lp64 e) (attaches s) (to_size_t (lp64 e) pid) False of
        Inl err \<Rightarrow> Inl err
      | Inr a \<Rightarrow> Inr (emit (PtraceDetach pid signal) (s\<lparr>attaches := a\<rparr>)))"

text \<open>
  How a part of \<open>check_pid\<close> ends: with \<open>return b\<close>, with \<open>goto not_target\<close>, or by
  running on to the next statement with the command line it has read.
\<close>

datatype ctl = Return bool | Goto_not_target | Next string

text \<open>The loop of lines 220 to 230: wait until the command line is \<open><pre-initialized>\<close>.\<close>

function check_pid_loop1 :: "env \<Rightarrow> int \<Rightarrow> nat \<Rightarrow> string \<Rightarrow> mstate \<Rightarrow> ctl \<times> mstate" where
  "check_pid_loop1 e pid i cmdline s =
     (if cmdline = ''<pre-initialized>'' then (Next cmdline, s)
      else if i \<ge> 300000 then (Return True, s)
      else if sys_read_cmdline e (clock s) pid = OpenFail then (Return True, tick s)
      else check_pid_loop1 e pid (i + 1)
             (fgets 1024 (sys_read_cmdline e (clock s) pid) cmdline)
             (tick (emit (Usleep 10) (tick s))))"
  by pat_completeness auto
termination
  by (relation "measure (\<lambda>(e, pid, i, cmdline, s). 300000 - i)") auto

declare check_pid_loop1.simps [simp del]

text \<open>The loop of lines 245 to 254: wait while the command line is \<open><pre-initialized>\<close>.\<close>

function check_pid_loop2 :: "env \<Rightarrow> int \<Rightarrow> nat \<Rightarrow> string \<Rightarrow> mstate \<Rightarrow> ctl \<times> mstate" where
  "check_pid_loop2 e pid i cmdline s =
     (if cmdline \<noteq> ''<pre-initialized>'' then (Next cmdline, s)
      else if i \<ge> 300000 then (Goto_not_target, s)
      else if sys_read_cmdline e (clock s) pid = OpenFail then (Return True, tick s)
      else check_pid_loop2 e pid (i + 1)
             (fgets 1024 (sys_read_cmdline e (clock s) pid) cmdline)
             (tick (emit (Usleep 10) (tick s))))"
  by pat_completeness auto
termination
  by (relation "measure (\<lambda>(e, pid, i, cmdline, s). 300000 - i)") auto

declare check_pid_loop2.simps [simp del]

text \<open>\<open>strstr(haystack, needle) != NULL\<close>.\<close>

fun strstr :: "string \<Rightarrow> string \<Rightarrow> bool" where
  "strstr [] needle = (needle = [])"
| "strstr (c # cs) needle = (take (length needle) (c # cs) = needle \<or> strstr cs needle)"

definition is_zygote_name :: "string \<Rightarrow> bool" where
  "is_zygote_name cmdline =
     (cmdline = ''zygote'' \<or> cmdline = ''zygote32'' \<or> cmdline = ''zygote64'')"

text \<open>The label \<open>not_target\<close>, lines 290 to 293.\<close>

definition not_target :: "int \<Rightarrow> mstate \<Rightarrow> bool \<times> mstate" where
  "not_target pid s = (True, emit (Kill pid SIGCONT) s)"

text \<open>
  Lines 264 to 288: stop the child, ask \<open>is_hide_target\<close>, compare the mount namespace
  with every zygote's (\<open>ns_not_separated\<close> is the loop of lines 273 to 280). The result
  of \<open>read_ns\<close> is not looked at: when it fails, \<open>st\<close> still holds what \<open>stat\<close> of the
  proc directory gave at line 188.
\<close>

definition ns_not_separated :: "stat \<Rightarrow> (int \<times> stat) list \<Rightarrow> bool" where
  "ns_not_separated st zm =
     list_ex (\<lambda>zit. st_ino (snd zit) = st_ino st \<and> st_dev (snd zit) = st_dev st) zm"

definition stop_and_decide :: "env \<Rightarrow> int \<Rightarrow> int \<Rightarrow> stat \<Rightarrow> string \<Rightarrow> mstate \<Rightarrow> bool \<times> mstate" where
  "stop_and_decide e pid uid st cmdline s =
     (let s1 = emit (Kill pid SIGSTOP) s;
          s2 = emit (IsHideTarget uid cmdline 95) s1
      in if \<not> ext_is_hide_target e uid cmdline 95 then not_target pid s2
         else (case read_ns e pid st s2 of
                 (rc, st', s3) \<Rightarrow>
                   if ns_not_separated st' (zygote_map s3) then not_target pid s3
                   else (True, emit (HideDaemon pid) s3)))"

text \<open>The label \<open>check_and_hide\<close>, lines 233 to 288.\<close>

definition check_and_hide :: "env \<Rightarrow> int \<Rightarrow> int \<Rightarrow> stat \<Rightarrow> string \<Rightarrow> mstate \<Rightarrow> bool \<times> mstate" where
  "check_and_hide e pid uid st cmdline s =
     (if uid = 0 then (False, s)
      else if is_zygote_name cmdline \<or> cmdline = ''usap32'' \<or> cmdline = ''usap64''
      then (False, s)
      else (case check_pid_loop2 e pid 0 cmdline s of
              (Return b, s1) \<Rightarrow> (b, s1)
            | (Goto_not_target, s1) \<Rightarrow> not_target pid s1
            | (Next cmdline1, s1) \<Rightarrow>
                (case sys_read_cmdline e (clock s1) pid of
                   OpenFail \<Rightarrow> (True, tick s1)
                 | r \<Rightarrow> stop_and_decide e pid uid st (fgets 1024 r cmdline1) (tick s1))))"

definition check_pid :: "env \<Rightarrow> int \<Rightarrow> mstate \<Rightarrow> bool \<times> mstate" where
  "check_pid e pid s =
     (case sys_stat_proc e (clock s) pid of
        None \<Rightarrow> (True, tick s)
      | Some st \<Rightarrow>
          let s1 = tick s;
              uid = sint (st_uid st)
          in (case sys_read_attr e (clock s1) pid of
                OpenFail \<Rightarrow> (True, tick s1)
              | ra \<Rightarrow>
                  let context = fgets 1024 ra (uninit_context e);
                      s2 = tick s1
                  in (case sys_read_cmdline e (clock s2) pid of
                        OpenFail \<Rightarrow> (True, tick s2)
                      | rc \<Rightarrow>
                          let cmdline = fgets 1024 rc (uninit_cmdline e);
                              s3 = tick s2
                          in if is_zygote_name cmdline \<and> context \<noteq> ''u:r:zygote:s0''
                             then
                               if strstr context ''u:r:app_zygote:s0''
                               then check_and_hide e pid uid st cmdline s3
                               else (case check_pid_loop1 e pid 0 cmdline s3 of
                                       (Next cmdline1, s4) \<Rightarrow> check_and_hide e pid uid st cmdline1 s4
                                     | (Goto_not_target, s4) \<Rightarrow> not_target pid s4
                                     | (Return b, s4) \<Rightarrow> (b, s4))
                             else check_and_hide e pid uid st cmdline s3)))"

subsection \<open>\<open>is_process\<close>\<close>

text \<open>
  The two \<open>sscanf\<close> formats of \<open>is_process\<close>. \<open>%s\<close> skips white space and takes the
  characters up to the next white space; \<open>%d\<close> skips white space and takes a sign and
  decimal digits. A conversion that matches nothing leaves its variable as it was.
  The number of \<open>%d\<close> is stored in an \<open>int\<close>: the C library of Android converts the
  digits as \<open>strtoimax\<close> does, which stops at the two ends of 64 bits, and the
  assignment to the \<open>int\<close> keeps the low 32 bits as a signed number.
  (A token longer than the 31 characters that \<open>key\<close> holds is not modelled; the status
  file of a process has none.)
\<close>

definition isspace :: "char \<Rightarrow> bool" where
  "isspace c = (c \<in> set [CHR '' '', CHR 0x09, CHR 0x0A, CHR 0x0B, CHR 0x0C, CHR 0x0D])"

definition isdigit :: "char \<Rightarrow> bool" where
  "isdigit c = (48 \<le> (of_char c :: nat) \<and> (of_char c :: nat) \<le> 57)"

definition scan_s :: "string \<Rightarrow> string option" where
  "scan_s l =
     (let t = takeWhile (\<lambda>c. \<not> isspace c) (dropWhile isspace l)
      in if t = [] then None else Some t)"

definition strtoimax_sat :: "int \<Rightarrow> int" where
  "strtoimax_sat v = max (- (2 ^ 63)) (min (2 ^ 63 - 1) v)"

definition store_int :: "int \<Rightarrow> int" where
  "store_int v = (let r = v mod 2 ^ 32 in if r < 2 ^ 31 then r else r - 2 ^ 32)"

definition scan_d :: "string \<Rightarrow> int option" where
  "scan_d l =
     (let r = dropWhile isspace l;
          neg = (r \<noteq> [] \<and> hd r = CHR ''-'');
          r1 = (if r \<noteq> [] \<and> (hd r = CHR ''-'' \<or> hd r = CHR ''+'') then tl r else r);
          ds = takeWhile isdigit r1;
          v = foldl (\<lambda>a c. 10 * a + (int (of_char c) - 48)) 0 ds
      in if ds = [] then None
         else Some (store_int (strtoimax_sat (if neg then - v else v))))"

definition scan_skip_d :: "string \<Rightarrow> int option" where
  "scan_skip_d l =
     (let r = dropWhile isspace l
      in if takeWhile (\<lambda>c. \<not> isspace c) r = [] then None
         else scan_d (dropWhile (\<lambda>c. \<not> isspace c) r))"

text \<open>The \<open>while (fgets ...)\<close> loop over the lines of the status file.\<close>

fun is_process_loop :: "int \<Rightarrow> string \<Rightarrow> int \<Rightarrow> string list \<Rightarrow> bool" where
  "is_process_loop pid key tgid [] = False"
| "is_process_loop pid key tgid (buf # rest) =
     (let key1 = (case scan_s buf of None \<Rightarrow> key | Some k \<Rightarrow> k)
      in if key1 = ''Tgid:''
         then (case scan_skip_d buf of None \<Rightarrow> tgid | Some n \<Rightarrow> n) = pid
         else is_process_loop pid key1 tgid rest)"

definition is_process :: "env \<Rightarrow> int \<Rightarrow> mstate \<Rightarrow> bool \<times> mstate" where
  "is_process e pid s =
     (case sys_read_status e (clock s) pid of
        None \<Rightarrow> (False, tick s)
      | Some lines \<Rightarrow> (is_process_loop pid (uninit_key e) (uninit_tgid e) lines, tick s))"

subsection \<open>The worker: \<open>do_check_fork\<close>\<close>

function do_check_fork_loop :: "env \<Rightarrow> int \<Rightarrow> nat \<Rightarrow> mstate \<Rightarrow> mstate" where
  "do_check_fork_loop e pid i s =
     (let r = check_pid e pid s
      in if fst r then snd r
         else if i \<ge> 300000 then snd r
         else do_check_fork_loop e pid (i + 1) (tick (emit (Usleep 10) (snd r))))"
  by pat_completeness auto
termination
  by (relation "measure (\<lambda>(e, pid, i, s). 300000 - i)") auto

declare do_check_fork_loop.simps [simp del]

definition do_check_fork :: "env \<Rightarrow> mstate \<Rightarrow> error + mstate" where
  "do_check_fork e s =
     (let pid = fork_pid s;
          s1 = s\<lparr>fork_pid := 0\<rparr>
      in if pid = 0 then Inr s1
         else (case detach_pid e pid 0 s1 of
                 Inl err \<Rightarrow> Inl err
               | Inr s2 \<Rightarrow> Inr (do_check_fork_loop e pid 0 s2)))"

subsection \<open>The main loop: \<open>proc_monitor\<close>\<close>

text \<open>
  The part of \<open>proc_monitor\<close> before the loop. (The thread handle \<open>monitor_thread\<close> is
  not kept.) Unblocking the three signals while they are ignored drops the pending ones.
\<close>

definition proc_monitor_init :: "env \<Rightarrow> mstate \<Rightarrow> mstate" where
  "proc_monitor_init e s =
     (let s1 = s\<lparr>orig_mask := sigmask s\<rparr>;
          s2 = s1\<lparr>handlers :=
                 (handlers s1)(SIGTERMTHRD := SIG_IGN, SIGIO := SIG_IGN, SIGALRM := SIG_IGN)\<rparr>;
          s3 = s2\<lparr>sigmask := sigmask s2 - {SIGTERMTHRD, SIGIO, SIGALRM}\<rparr>;
          s4 = s3\<lparr>sigmask := orig_mask s3\<rparr>;
          s5 = s4\<lparr>handlers :=
                 (handlers s4)(SIGTERMTHRD := H_term_thread, SIGIO := H_inotify_event,
                               SIGALRM := H_check_zygote)\<rparr>;
          s6 = setup_inotify e s5;
          s7 = check_zygote e s6
      in if \<not> is_zygote_done (lp64 e) s7 then s7\<lparr>itimer := 250000\<rparr> else s7)"

text \<open>
  The event message is an \<open>unsigned long\<close>, as wide as \<open>size_t\<close>; \<open>fork_pid = msg\<close> and
  the \<open>int\<close> parameter of \<open>detach_pid\<close> keep its low 32 bits as a signed number.
\<close>

definition to_int :: "nat \<Rightarrow> int" where
  "to_int m = (let r = int m mod 2 ^ 32 in if r < 2 ^ 31 then r else r - 2 ^ 32)"

text \<open>The branch \<open>signal == SIGTRAP && event\<close>, lines 422 to 446.\<close>

definition on_ptrace_event :: "env \<Rightarrow> int \<Rightarrow> int \<Rightarrow> mstate \<Rightarrow> error + mstate" where
  "on_ptrace_event e pid event s =
     (let msg = sys_geteventmsg e (clock s) pid mod 2 ^ size_t_bits (lp64 e);
          s1 = tick (emit (PtraceGetEventMsg pid) s)
      in if map_count (zygote_map s1) pid \<noteq> 0
         then
           if event = PTRACE_EVENT_FORK \<or> event = PTRACE_EVENT_VFORK
           then (case pid_set_put (lp64 e) (attaches s1) msg False of
                   Inl err \<Rightarrow> Inl err
                 | Inr a \<Rightarrow>
                     (case detach_pid e (to_int msg) 0 (s1\<lparr>attaches := a, fork_pid := to_int msg\<rparr>) of
                        Inl err \<Rightarrow> Inl err
                      | Inr s2 \<Rightarrow> Inr (emit (PtraceCont pid 0) (emit NewDaemonThread s2))))
           else detach_pid e pid 0 (s1\<lparr>zygote_map := map_erase (zygote_map s1) pid\<rparr>)
         else detach_pid e pid 0 s1)"

text \<open>The branch \<open>signal == SIGSTOP\<close>, lines 447 to 462.\<close>

definition on_sigstop :: "env \<Rightarrow> int \<Rightarrow> mstate \<Rightarrow> error + mstate" where
  "on_sigstop e pid s =
     (case pid_set_get (lp64 e) (attaches s) (to_size_t (lp64 e) pid) of
        Inl err \<Rightarrow> Inl err
      | Inr attached \<Rightarrow>
          (case (if \<not> attached
                 then (case is_process e pid s of
                         (r, s1) \<Rightarrow>
                           (case pid_set_put (lp64 e) (attaches s1) (to_size_t (lp64 e) pid) r of
                              Inl err \<Rightarrow> Inl err
                            | Inr a \<Rightarrow> Inr (s1\<lparr>attaches := a\<rparr>)))
                 else Inr s) of
             Inl err \<Rightarrow> Inl err
           | Inr s2 \<Rightarrow>
               (case pid_set_get (lp64 e) (attaches s2) (to_size_t (lp64 e) pid) of
                  Inl err \<Rightarrow> Inl err
                | Inr attached2 \<Rightarrow>
                    if attached2
                    then Inr (emit (PtraceCont pid 0)
                               (emit (PtraceSetOptions pid {TRACECLONE, TRACEEXEC, TRACEEXIT}) s2))
                    else detach_pid e pid 0 s2)))"

text \<open>
  One turn of the \<open>for\<close> loop, given what \<open>waitpid\<close> returns: the pid (or \<open>-1\<close>), the
  status and \<open>errno\<close>.
\<close>

definition proc_monitor_iter :: "env \<Rightarrow> int \<Rightarrow> int \<Rightarrow> int \<Rightarrow> mstate \<Rightarrow> error + mstate" where
  "proc_monitor_iter e pid status errno s =
     (let s1 = tick (s\<lparr>sigmask := sigmask s - {SIGTERMTHRD, SIGIO, SIGALRM}\<rparr>)
      in if pid < 0
         then Inr (if errno = ECHILD then tick (emit Nanosleep s1) else s1)
         else
           let s2 = s1\<lparr>sigmask := orig_mask s1\<rparr>
           in if \<not> WIFSTOPPED status then detach_pid e pid 0 s2
              else
                let event = WEVENT e status;
                    signal = WSTOPSIG status
                in if signal = SIGTRAP \<and> event \<noteq> 0 then on_ptrace_event e pid event s2
                   else if signal = SIGSTOP then on_sigstop e pid s2
                   else Inr (emit (PtraceCont pid signal) s2))"

text \<open>
  What happens to the monitor, one thing at a time: one of its signals is delivered while
  it waits, \<open>waitpid\<close> returns, or a worker thread started by \<open>new_daemon_thread\<close> runs
  \<open>do_check_fork\<close>. Once the monitor thread has exited only workers run. (The worker is
  taken to run in one piece; how it interleaves with the monitor thread is outside the
  model.)
\<close>

datatype input = Signal asig | Wait int int int | Worker

definition deliver :: "env \<Rightarrow> asig \<Rightarrow> mstate \<Rightarrow> mstate" where
  "deliver e g s =
     (case handlers s g of
        H_term_thread \<Rightarrow> term_thread s
      | H_inotify_event \<Rightarrow> inotify_event e s
      | H_check_zygote \<Rightarrow> check_zygote e s
      | SIG_IGN \<Rightarrow> s
      | SIG_DFL \<Rightarrow> s\<lparr>exited := True\<rparr>)"

definition monitor_step :: "env \<Rightarrow> input \<Rightarrow> mstate \<Rightarrow> error + mstate" where
  "monitor_step e inp s =
     (case inp of
        Worker \<Rightarrow> do_check_fork e s
      | Signal g \<Rightarrow> if exited s then Inr s else Inr (deliver e g s)
      | Wait pid status errno \<Rightarrow> if exited s then Inr s else proc_monitor_iter e pid status errno s)"

fun run :: "env \<Rightarrow> input list \<Rightarrow> mstate \<Rightarrow> error + mstate" where
  "run e [] s = Inr s"
| "run e (inp # inps) s =
     (case monitor_step e inp s of
        Inl err \<Rightarrow> Inl err
      | Inr s1 \<Rightarrow> run e inps s1)"

text \<open>
  \<open>proc_monitor\<close> itself: the start, then the loop, which never returns. The list is
  what has happened to the monitor so far, and the result is the state it has reached.
\<close>

definition proc_monitor :: "env \<Rightarrow> input list \<Rightarrow> mstate \<Rightarrow> error + mstate" where
  "proc_monitor e inps s = run e inps (proc_monitor_init e s)"

section \<open>Notions used in the proofs\<close>

text \<open>
  Every function of the inspector only advances the clock and extends the trace:
  \<open>adv k ev s\<close> is \<open>s\<close> after \<open>k\<close> ticks and the events \<open>ev\<close>.
\<close>

definition adv :: "nat \<Rightarrow> event list \<Rightarrow> mstate \<Rightarrow> mstate" where
  "adv k ev s = s\<lparr>clock := clock s + k, trace := trace s @ ev\<rparr>"

text \<open>
  What one inspection does to the child \<open>pid\<close>, its sleeps apart: nothing; a lone
  \<open>SIGCONT\<close>; \<open>SIGSTOP\<close>, the question to \<open>is_hide_target\<close>, and then either
  \<open>SIGCONT\<close> or (only if \<open>h\<close>) the hide daemon. Only a call that returns true does
  any of it.
\<close>

definition verdict :: "bool \<Rightarrow> int \<Rightarrow> bool \<Rightarrow> event list \<Rightarrow> bool" where
  "verdict h pid b vs \<longleftrightarrow>
     vs = [] \<or>
     (b \<and> (vs = [Kill pid SIGCONT] \<or>
           (\<exists>uid c. vs = [Kill pid SIGSTOP, IsHideTarget uid c 95, Kill pid SIGCONT] \<or>
                    (h \<and> vs = [Kill pid SIGSTOP, IsHideTarget uid c 95, HideDaemon pid]))))"

text \<open>The mount namespace of \<open>pid\<close> reads, at every time, as that of a zygote of \<open>zm\<close>.\<close>

definition ns_shared :: "env \<Rightarrow> int \<Rightarrow> (int \<times> stat) list \<Rightarrow> bool" where
  "ns_shared e pid zm \<longleftrightarrow>
     (\<forall>t. \<exists>st. sys_stat_ns e t pid = Some st \<and> ns_not_separated st zm)"

text \<open>What \<open>st\<close> holds after the unchecked \<open>read_ns(pid, &st)\<close> of line 272.\<close>

definition ns_seen :: "env \<Rightarrow> int \<Rightarrow> stat \<Rightarrow> mstate \<Rightarrow> stat" where
  "ns_seen e pid st s = (case sys_stat_ns e (clock s) pid of None \<Rightarrow> st | Some st' \<Rightarrow> st')"

text \<open>The timer is armed only while the registry is short of zygotes.\<close>

definition timer_inv :: "bool \<Rightarrow> mstate \<Rightarrow> bool" where
  "timer_inv lp s \<longleftrightarrow> (itimer s \<noteq> 0 \<longrightarrow> \<not> is_zygote_done lp s)"

text \<open>
  Why an inspection may end without having resumed or hidden the child. What has run from
  the time \<open>t0\<close> to the time \<open>t1\<close> ends at a failed read: at its last tick one of the
  reads that \<open>check_pid\<close> guards fails, \<open>stat\<close> of the proc directory, or the opening
  of \<open>attr/current\<close> or of \<open>cmdline\<close>.
\<close>

definition gone_at_end :: "env \<Rightarrow> int \<Rightarrow> nat \<Rightarrow> nat \<Rightarrow> bool" where
  "gone_at_end e pid t0 t1 \<longleftrightarrow>
     t0 < t1 \<and>
     (sys_stat_proc e (t1 - 1) pid = None \<or> sys_read_attr e (t1 - 1) pid = OpenFail \<or>
      sys_read_cmdline e (t1 - 1) pid = OpenFail)"

text \<open>
  The names that line 236 to 241 exclude; and a child that an inspection started at time
  \<open>t\<close> finds excluded: its proc directory is owned by uid 0, or the command line read two
  ticks later is one of these names.
\<close>

definition excluded_name :: "string \<Rightarrow> bool" where
  "excluded_name c \<longleftrightarrow> is_zygote_name c \<or> c = ''usap32'' \<or> c = ''usap64''"

definition excluded_at :: "env \<Rightarrow> int \<Rightarrow> nat \<Rightarrow> bool" where
  "excluded_at e pid t \<longleftrightarrow>
     (\<exists>st. sys_stat_proc e t pid = Some st \<and> st_uid st = 0) \<or>
     excluded_name (fgets 1024 (sys_read_cmdline e (t + 2) pid) (uninit_cmdline e))"

text \<open>The word a line of the status file begins with (empty when it begins with white space).\<close>

definition first_word :: "string \<Rightarrow> string" where
  "first_word l = takeWhile (\<lambda>c. \<not> isspace c) l"

text \<open>The timer is armed exactly while the registry is short of zygotes.\<close>

definition timer_exact :: "bool \<Rightarrow> mstate \<Rightarrow> bool" where
  "timer_exact lp s \<longleftrightarrow> (itimer s \<noteq> 0 \<longleftrightarrow> \<not> is_zygote_done lp s)"

text \<open>
  A run in which the registry never shrinks: no step of it leaves fewer zygotes registered
  than it found. (The steps that shrink the registry are the loss of a zygote, lines 436
  to 441, and \<open>term_thread\<close> when zygotes are registered.)
\<close>

fun registry_kept :: "env \<Rightarrow> input list \<Rightarrow> mstate \<Rightarrow> bool" where
  "registry_kept e [] s = True"
| "registry_kept e (inp # inps) s =
     (case monitor_step e inp s of
        Inl err \<Rightarrow> True
      | Inr s1 \<Rightarrow> map_size (zygote_map s) \<le> map_size (zygote_map s1) \<and> registry_kept e inps s1)"

text \<open>
  A wait status that is a terminal ptrace event: a ptrace-event stop whose event is
  neither fork nor vfork. The inputs of a run of discoveries: the timer's tick, the
  inotify signal, a worker, and every wait result that is not a terminal event.
\<close>

definition terminal_event :: "env \<Rightarrow> int \<Rightarrow> bool" where
  "terminal_event e status \<longleftrightarrow>
     WIFSTOPPED status \<and> WSTOPSIG status = SIGTRAP \<and> WEVENT e status \<noteq> 0 \<and>
     WEVENT e status \<noteq> PTRACE_EVENT_FORK \<and> WEVENT e status \<noteq> PTRACE_EVENT_VFORK"

fun discovery :: "env \<Rightarrow> input \<Rightarrow> bool" where
  "discovery e (Signal g) = (g = SIGALRM \<or> g = SIGIO)"
| "discovery e (Wait pid status errno) = (\<not> terminal_event e status)"
| "discovery e Worker = True"

text \<open>
  \<open>grows s s'\<close>: from \<open>s\<close> to \<open>s'\<close> the timer and the handlers are the same and the
  registry has not shrunk. \<open>installed s\<close>: the handlers of \<open>SIGALRM\<close> and \<open>SIGIO\<close> are
  those that \<open>proc_monitor\<close> installs.
\<close>

definition grows :: "mstate \<Rightarrow> mstate \<Rightarrow> bool" where
  "grows s s' \<longleftrightarrow> itimer s' = itimer s \<and> handlers s' = handlers s \<and>
     map_size (zygote_map s) \<le> map_size (zygote_map s')"

definition installed :: "mstate \<Rightarrow> bool" where
  "installed s \<longleftrightarrow> handlers s SIGALRM = H_check_zygote \<and> handlers s SIGIO = H_inotify_event"

section \<open>Concrete runs\<close>

text \<open>
  A small world for the closed theorems: a 32-bit system whose zygote is pid 1000, and a
  child 1100 that the zygote has forked, owned by uid 10050 and named
  \<open>com.example.target\<close>, which \<open>is_hide_target\<close> accepts. \<open>boot_state\<close> is the state
  the initialisers of the globals give; in \<open>forked_state\<close> the zygote is registered and
  the pending fork is the child. In \<open>dead_env\<close> the child is gone before it is
  inspected, in \<open>shared_env\<close> it is still in the zygote's mount namespace, and in
  \<open>nsfail_env\<close> its namespace cannot be read. In \<open>gone_env\<close> no status file can be
  opened, in \<open>early_env\<close> no process runs yet, and in \<open>usap_env\<close> every process is
  named \<open>usap64\<close>. \<open>stop_status\<close> is the wait
  status of a ptrace stop with the given event and signal, and \<open>armed_and_done\<close>
  tells of a result whether the timer is armed and whether \<open>is_zygote_done\<close> holds.
\<close>

definition boot_state :: mstate where
  "boot_state = \<lparr>zygote_map = [], attaches = {}, fork_pid = 0, inotify_fd = - 1,
     orig_mask = {}, clock = 0, trace = [], itimer = 0, handlers = (\<lambda>g. SIG_DFL),
     sigmask = {}, open_fds = {}, watches = [], exited = False\<rparr>"

definition ns_zygote :: stat where
  "ns_zygote = \<lparr>st_dev = 4, st_ino = 4026531840, st_uid = 0\<rparr>"

definition ns_app :: stat where
  "ns_app = \<lparr>st_dev = 4, st_ino = 4026532100, st_uid = 0\<rparr>"

definition target_env :: env where
  "target_env = \<lparr>lp64 = False,
     sys_stat_proc = (\<lambda>t p. Some \<lparr>st_dev = 5, st_ino = 20000, st_uid = 10050\<rparr>),
     sys_stat_ns = (\<lambda>t p. Some (if p = 1000 then ns_zygote else ns_app)),
     sys_read_attr = (\<lambda>t p. Line ''u:r:untrusted_app:s0''),
     sys_read_cmdline = (\<lambda>t p. Line (if p = 1000 then ''zygote'' else ''com.example.target'')),
     sys_read_ppid = (\<lambda>t p. Some 1),
     sys_read_status = (\<lambda>t p. Some [''Name:'' @ [CHR 0x09] @ ''main'' @ [CHR 0x0A],
                                    ''Tgid:'' @ [CHR 0x09] @ ''1100'' @ [CHR 0x0A]]),
     sys_procfs = (\<lambda>t. [1000]),
     sys_geteventmsg = (\<lambda>t p. 1100),
     sys_inotify_init = (\<lambda>t. 7),
     sys_access = (\<lambda>t p. False),
     sys_poll_inotify = (\<lambda>t. None),
     ext_is_hide_target = (\<lambda>uid c th. c = ''com.example.target''),
     WEVENT = (\<lambda>status. status div 65536),
     uninit_context = [], uninit_cmdline = [], uninit_key = [], uninit_tgid = 0\<rparr>"

definition forked_state :: mstate where
  "forked_state = boot_state\<lparr>zygote_map := [(1000, ns_zygote)], fork_pid := 1100\<rparr>"

definition dead_env :: env where
  "dead_env = target_env\<lparr>sys_stat_proc := (\<lambda>t p. None)\<rparr>"

definition shared_env :: env where
  "shared_env = target_env\<lparr>sys_stat_ns := (\<lambda>t p. Some ns_zygote)\<rparr>"

definition nsfail_env :: env where
  "nsfail_env = target_env\<lparr>sys_stat_ns := (\<lambda>t p. if p = 1000 then Some ns_zygote else None)\<rparr>"

definition stop_status :: "int \<Rightarrow> int \<Rightarrow> int" where
  "stop_status event sig = event * 65536 + sig * 256 + 127"

definition gone_env :: env where
  "gone_env = target_env\<lparr>sys_read_status := (\<lambda>t p. None)\<rparr>"

definition armed_and_done :: "env \<Rightarrow> error + mstate \<Rightarrow> (bool \<times> bool) option" where
  "armed_and_done e r =
     (case r of
        Inl err \<Rightarrow> None
      | Inr s \<Rightarrow> Some (itimer s \<noteq> 0, is_zygote_done (lp64 e) s))"

definition early_env :: env where
  "early_env = target_env\<lparr>sys_procfs := (\<lambda>t. [])\<rparr>"


text \<open>
  More of the small world. In \<open>dying_env\<close> the child is still in the zygote's mount
  namespace and is killed at time 4, after which its namespace cannot be read. In
  \<open>preinit_env\<close> every command line stays \<open><pre-initialized>\<close>, and in \<open>stuck_env\<close>
  it stays \<open>zygote\<close>. In \<open>thread_env\<close> the status file is that of a thread of the
  process 1000, and in \<open>wide_env\<close> its \<open>Tgid:\<close> line carries 1100 plus \<open>2 ^ 32\<close>. In
  \<open>late_env\<close> the zygote starts at time 3, after the first scan.
\<close>

definition dying_env :: env where
  "dying_env = target_env\<lparr>sys_stat_ns := (\<lambda>t p. if p = 1000 \<or> t < 4 then Some ns_zygote else None)\<rparr>"



definition thread_env :: env where
  "thread_env = target_env\<lparr>sys_read_status := \<lambda>t p.
     Some [''Name:'' @ [CHR 0x09] @ ''Binder:1000_1'' @ [CHR 0x0A],
           ''Umask:'' @ [CHR 0x09] @ ''0077'' @ [CHR 0x0A],
           ''State:'' @ [CHR 0x09] @ ''S (sleeping)'' @ [CHR 0x0A],
           ''Tgid:'' @ [CHR 0x09] @ ''1000'' @ [CHR 0x0A]]\<rparr>"

definition wide_env :: env where
  "wide_env = target_env\<lparr>sys_read_status := \<lambda>t p.
     Some [''Tgid:'' @ [CHR 0x09] @ ''4294968396'' @ [CHR 0x0A]]\<rparr>"

definition late_env :: env where
  "late_env = target_env\<lparr>sys_procfs := (\<lambda>t. if t < 3 then [] else [1000])\<rparr>"

section \<open>The inspector only sleeps, stops, asks, resumes or hides\<close>

lemma adv_0 [simp]: "adv 0 [] s = s"
  by (simp add: adv_def)

lemma adv_adv [simp]: "adv k ev (adv j ev0 s) = adv (j + k) (ev0 @ ev) s"
  by (simp add: adv_def)

lemma tick_adv: "tick s = adv 1 [] s"
  by (simp add: tick_def adv_def)

lemma emit_adv: "emit x s = adv 0 [x] s"
  by (simp add: emit_def adv_def)

lemma adv_fields [simp]:
  "zygote_map (adv k ev s) = zygote_map s"
  "attaches (adv k ev s) = attaches s"
  "fork_pid (adv k ev s) = fork_pid s"
  "itimer (adv k ev s) = itimer s"
  "trace (adv k ev s) = trace s @ ev"
  "clock (adv k ev s) = clock s + k"
  "handlers (adv k ev s) = handlers s"
  by (simp_all add: adv_def)

lemma sleeps_intros:
  "\<exists>k n. s = adv k (replicate n x) s"
  "\<exists>k n. adv j [] s = adv k (replicate n x) s"
proof -
  have "s = adv 0 (replicate 0 x) s" by simp
  then show "\<exists>k n. s = adv k (replicate n x) s" by blast
  have "adv j [] s = adv j (replicate 0 x) s" by simp
  then show "\<exists>k n. adv j [] s = adv k (replicate n x) s" by blast
qed

lemma gone_at_end_mono:
  "gone_at_end e pid a b \<Longrightarrow> a' \<le> a \<Longrightarrow> b = b' \<Longrightarrow> gone_at_end e pid a' b'"
  by (auto simp: gone_at_end_def)

lemma gone_cmdline:
  "sys_read_cmdline e t pid = OpenFail \<Longrightarrow> a \<le> t \<Longrightarrow> b = Suc t \<Longrightarrow> gone_at_end e pid a b"
  by (auto simp: gone_at_end_def)

lemma loop1_adv:
  "\<exists>k n r. check_pid_loop1 e pid i c s = (r, adv k (replicate n (Usleep 10)) s) \<and>
      r \<noteq> Goto_not_target \<and>
      (\<forall>b. r = Return b \<longrightarrow>
           b \<and> (300000 \<le> i + n \<or> gone_at_end e pid (clock s) (clock s + k)))"
proof (induction e pid i c s rule: check_pid_loop1.induct)
  case (1 e pid i cmdline s)
  show ?case
  proof (cases "cmdline = ''<pre-initialized>''")
    case True
    then have "check_pid_loop1 e pid i cmdline s = (Next cmdline, adv 0 (replicate 0 (Usleep 10)) s)"
      by (subst check_pid_loop1.simps) simp
    then show ?thesis by blast
  next
    case c: False
    show ?thesis
    proof (cases "i \<ge> 300000")
      case True
      with c have "check_pid_loop1 e pid i cmdline s = (Return True, adv 0 (replicate 0 (Usleep 10)) s)"
        by (subst check_pid_loop1.simps) simp
      moreover have "300000 \<le> i + 0" using True by simp
      ultimately show ?thesis by blast
    next
      case i: False
      show ?thesis
      proof (cases "sys_read_cmdline e (clock s) pid = OpenFail")
        case True
        with c i have "check_pid_loop1 e pid i cmdline s = (Return True, adv 1 (replicate 0 (Usleep 10)) s)"
          by (subst check_pid_loop1.simps) (simp add: tick_adv)
        moreover have "gone_at_end e pid (clock s) (clock s + 1)"
          using True by (auto intro: gone_cmdline)
        ultimately show ?thesis by blast
      next
        case False
        let ?s1 = "tick (emit (Usleep 10) (tick s))"
        let ?c1 = "fgets 1024 (sys_read_cmdline e (clock s) pid) cmdline"
        from c i False 1 obtain k n r where
          ih: "check_pid_loop1 e pid (i + 1) ?c1 ?s1 = (r, adv k (replicate n (Usleep 10)) ?s1)"
          and r: "r \<noteq> Goto_not_target"
          and w: "\<forall>b. r = Return b \<longrightarrow>
                   b \<and> (300000 \<le> i + 1 + n \<or> gone_at_end e pid (clock ?s1) (clock ?s1 + k))"
          by (auto simp: not_le)
        have s1: "?s1 = adv 2 [Usleep 10] s" by (simp add: tick_adv emit_adv numeral_2_eq_2)
        from c i False ih have eq: "check_pid_loop1 e pid i cmdline s =
            (r, adv (2 + k) (replicate (Suc n) (Usleep 10)) s)"
          by (subst check_pid_loop1.simps) (simp add: s1)
        have "\<forall>b. r = Return b \<longrightarrow>
                b \<and> (300000 \<le> i + Suc n \<or> gone_at_end e pid (clock s) (clock s + (2 + k)))"
        proof (intro allI impI)
          fix b assume "r = Return b"
          with w have b: "b" and d: "300000 \<le> i + 1 + n \<or> gone_at_end e pid (clock ?s1) (clock ?s1 + k)"
            by auto
          from d have "300000 \<le> i + Suc n \<or> gone_at_end e pid (clock s) (clock s + (2 + k))"
          proof
            assume "300000 \<le> i + 1 + n" then show ?thesis by simp
          next
            assume "gone_at_end e pid (clock ?s1) (clock ?s1 + k)"
            then have "gone_at_end e pid (clock s) (clock s + (2 + k))"
              by (rule gone_at_end_mono) (simp_all add: s1)
            then show ?thesis ..
          qed
          with b show "b \<and> (300000 \<le> i + Suc n \<or> gone_at_end e pid (clock s) (clock s + (2 + k)))"
            by simp
        qed
        with eq r show ?thesis by blast
      qed
    qed
  qed
qed

lemma loop2_adv:
  "\<exists>k n r. check_pid_loop2 e pid i c s = (r, adv k (replicate n (Usleep 10)) s) \<and>
      r \<noteq> Return False \<and>
      (\<forall>b. r = Return b \<longrightarrow> gone_at_end e pid (clock s) (clock s + k))"
proof (induction e pid i c s rule: check_pid_loop2.induct)
  case (1 e pid i cmdline s)
  show ?case
  proof (cases "cmdline \<noteq> ''<pre-initialized>''")
    case True
    then have "check_pid_loop2 e pid i cmdline s = (Next cmdline, adv 0 (replicate 0 (Usleep 10)) s)"
      by (subst check_pid_loop2.simps) simp
    then show ?thesis by blast
  next
    case c: False
    show ?thesis
    proof (cases "i \<ge> 300000")
      case True
      with c have "check_pid_loop2 e pid i cmdline s = (Goto_not_target, adv 0 (replicate 0 (Usleep 10)) s)"
        by (subst check_pid_loop2.simps) simp
      then show ?thesis by blast
    next
      case i: False
      show ?thesis
      proof (cases "sys_read_cmdline e (clock s) pid = OpenFail")
        case True
        with c i have "check_pid_loop2 e pid i cmdline s = (Return True, adv 1 (replicate 0 (Usleep 10)) s)"
          by (subst check_pid_loop2.simps) (simp add: tick_adv)
        moreover have "gone_at_end e pid (clock s) (clock s + 1)"
          using True by (auto intro: gone_cmdline)
        ultimately show ?thesis by blast
      next
        case False
        let ?s1 = "tick (emit (Usleep 10) (tick s))"
        let ?c1 = "fgets 1024 (sys_read_cmdline e (clock s) pid) cmdline"
        from c i False 1 obtain k n r where
          ih: "check_pid_loop2 e pid (i + 1) ?c1 ?s1 = (r, adv k (replicate n (Usleep 10)) ?s1)"
          and r: "r \<noteq> Return False"
          and w: "\<forall>b. r = Return b \<longrightarrow> gone_at_end e pid (clock ?s1) (clock ?s1 + k)"
          by (auto simp: not_le)
        have s1: "?s1 = adv 2 [Usleep 10] s" by (simp add: tick_adv emit_adv numeral_2_eq_2)
        from c i False ih have eq: "check_pid_loop2 e pid i cmdline s =
            (r, adv (2 + k) (replicate (Suc n) (Usleep 10)) s)"
          by (subst check_pid_loop2.simps) (simp add: s1)
        have "\<forall>b. r = Return b \<longrightarrow> gone_at_end e pid (clock s) (clock s + (2 + k))"
        proof (intro allI impI)
          fix b assume "r = Return b"
          with w have "gone_at_end e pid (clock ?s1) (clock ?s1 + k)" by auto
          then show "gone_at_end e pid (clock s) (clock s + (2 + k))"
            by (rule gone_at_end_mono) (simp_all add: s1)
        qed
        with eq r show ?thesis by blast
      qed
    qed
  qed
qed

lemma stop_and_decide_eq:
  "stop_and_decide e pid uid st c s =
     (True,
      if \<not> ext_is_hide_target e uid c 95
      then adv 0 [Kill pid SIGSTOP, IsHideTarget uid c 95, Kill pid SIGCONT] s
      else if ns_not_separated (ns_seen e pid st s) (zygote_map s)
      then adv 1 [Kill pid SIGSTOP, IsHideTarget uid c 95, Kill pid SIGCONT] s
      else adv 1 [Kill pid SIGSTOP, IsHideTarget uid c 95, HideDaemon pid] s)"
  by (simp add: stop_and_decide_def not_target_def read_ns_def emit_adv tick_adv Let_def
        ns_seen_def ns_not_separated_def split: option.splits)

lemma ns_shared_seen: "ns_shared e pid zm \<Longrightarrow> ns_not_separated (ns_seen e pid st s) zm"
proof -
  assume "ns_shared e pid zm"
  then obtain st' where "sys_stat_ns e (clock s) pid = Some st'" "ns_not_separated st' zm"
    unfolding ns_shared_def by blast
  then show ?thesis
    by (simp add: ns_seen_def)
qed

lemma stop_and_decide_adv:
  "\<exists>k vs. stop_and_decide e pid uid st c s = (True, adv k vs s) \<and> vs \<noteq> [] \<and>
      verdict (\<not> ns_shared e pid (zygote_map s)) pid True vs"
proof -
  let ?stop = "[Kill pid SIGSTOP, IsHideTarget uid c 95, Kill pid SIGCONT]"
  let ?hide = "[Kill pid SIGSTOP, IsHideTarget uid c 95, HideDaemon pid]"
  consider (a) "stop_and_decide e pid uid st c s = (True, adv 0 ?stop s)"
    | (b) "stop_and_decide e pid uid st c s = (True, adv 1 ?stop s)"
    | (c) "stop_and_decide e pid uid st c s = (True, adv 1 ?hide s)"
          "\<not> ns_not_separated (ns_seen e pid st s) (zygote_map s)"
    by (cases "ext_is_hide_target e uid c 95";
        cases "ns_not_separated (ns_seen e pid st s) (zygote_map s)")
       (simp_all add: stop_and_decide_eq)
  then show ?thesis
  proof cases
    case a
    have "verdict (\<not> ns_shared e pid (zygote_map s)) pid True ?stop"
      unfolding verdict_def by blast
    with a show ?thesis by blast
  next
    case b
    have "verdict (\<not> ns_shared e pid (zygote_map s)) pid True ?stop"
      unfolding verdict_def by blast
    with b show ?thesis by blast
  next
    case c
    from c(2) have "\<not> ns_shared e pid (zygote_map s)"
      using ns_shared_seen by blast
    then have "verdict (\<not> ns_shared e pid (zygote_map s)) pid True ?hide"
      unfolding verdict_def by blast
    with c(1) show ?thesis by blast
  qed
qed

lemma verdict_Nil [simp]: "verdict h pid b []"
  by (simp add: verdict_def)

lemma check_and_hide_adv:
  "\<exists>k n vs b. check_and_hide e pid uid st c s = (b, adv k (replicate n (Usleep 10) @ vs) s) \<and>
      verdict (\<not> ns_shared e pid (zygote_map s)) pid b vs \<and>
      (\<not> b \<longrightarrow> uid = 0 \<or> excluded_name c) \<and>
      (b \<and> vs = [] \<longrightarrow> gone_at_end e pid (clock s) (clock s + k))"
proof (cases "uid = 0 \<or> is_zygote_name c \<or> c = ''usap32'' \<or> c = ''usap64''")
  case True
  then have "check_and_hide e pid uid st c s = (False, adv 0 (replicate 0 (Usleep 10) @ []) s)"
    by (auto simp: check_and_hide_def)
  moreover from True have "uid = 0 \<or> excluded_name c"
    by (auto simp: excluded_name_def)
  ultimately show ?thesis using verdict_Nil by blast
next
  case False
  obtain k n r where l2: "check_pid_loop2 e pid 0 c s = (r, adv k (replicate n (Usleep 10)) s)"
    and r: "r \<noteq> Return False"
    and w: "\<forall>b. r = Return b \<longrightarrow> gone_at_end e pid (clock s) (clock s + k)"
    using loop2_adv by blast
  show ?thesis
  proof (cases r)
    case (Return b)
    with r have "b" by simp
    with False l2 Return
    have "check_and_hide e pid uid st c s = (True, adv k (replicate n (Usleep 10) @ []) s)"
      by (simp add: check_and_hide_def)
    moreover from w Return have "gone_at_end e pid (clock s) (clock s + k)" by simp
    ultimately show ?thesis using verdict_Nil by blast
  next
    case Goto_not_target
    with False l2
    have "check_and_hide e pid uid st c s = (True, adv k (replicate n (Usleep 10) @ [Kill pid SIGCONT]) s)"
      by (simp add: check_and_hide_def not_target_def emit_adv)
    moreover have "verdict (\<not> ns_shared e pid (zygote_map s)) pid True [Kill pid SIGCONT]"
      by (simp add: verdict_def)
    moreover have "[Kill pid SIGCONT] \<noteq> []" by simp
    ultimately show ?thesis by blast
  next
    case (Next c1)
    let ?s1 = "adv k (replicate n (Usleep 10)) s"
    show ?thesis
    proof (cases "sys_read_cmdline e (clock ?s1) pid = OpenFail")
      case True
      with False l2 Next
      have "check_and_hide e pid uid st c s = (True, adv (k + 1) (replicate n (Usleep 10) @ []) s)"
        by (simp add: check_and_hide_def tick_adv)
      moreover from True have "gone_at_end e pid (clock s) (clock s + (k + 1))"
        by (auto intro: gone_cmdline)
      ultimately show ?thesis using verdict_Nil by blast
    next
      case nf: False
      let ?c2 = "fgets 1024 (sys_read_cmdline e (clock ?s1) pid) c1"
      from nf False l2 Next
      have eq: "check_and_hide e pid uid st c s = stop_and_decide e pid uid st ?c2 (tick ?s1)"
        by (simp add: check_and_hide_def split: fread.splits)
      obtain j vs where sd: "stop_and_decide e pid uid st ?c2 (tick ?s1) = (True, adv j vs (tick ?s1))"
        and ne: "vs \<noteq> []"
        and v: "verdict (\<not> ns_shared e pid (zygote_map (tick ?s1))) pid True vs"
        using stop_and_decide_adv by blast
      have "adv j vs (tick ?s1) = adv (k + 1 + j) (replicate n (Usleep 10) @ vs) s"
        by (simp add: tick_adv)
      with eq sd have "check_and_hide e pid uid st c s =
          (True, adv (k + 1 + j) (replicate n (Usleep 10) @ vs) s)"
        by simp
      moreover have "verdict (\<not> ns_shared e pid (zygote_map s)) pid True vs"
        using v by (simp add: tick_adv)
      ultimately show ?thesis using ne by blast
    qed
  qed
qed

lemma check_and_hide_after:
  "\<exists>k n vs b. check_and_hide e pid uid st c (adv k0 (replicate n0 (Usleep 10)) s) =
        (b, adv k (replicate n (Usleep 10) @ vs) s) \<and>
      verdict (\<not> ns_shared e pid (zygote_map s)) pid b vs \<and>
      (\<not> b \<longrightarrow> uid = 0 \<or> excluded_name c) \<and>
      (b \<and> vs = [] \<longrightarrow> gone_at_end e pid (clock s) (clock s + k))"
proof -
  let ?s0 = "adv k0 (replicate n0 (Usleep 10)) s"
  obtain k n vs b where
    c: "check_and_hide e pid uid st c ?s0 = (b, adv k (replicate n (Usleep 10) @ vs) ?s0)"
    and v: "verdict (\<not> ns_shared e pid (zygote_map ?s0)) pid b vs"
    and x: "\<not> b \<longrightarrow> uid = 0 \<or> excluded_name c"
    and g: "b \<and> vs = [] \<longrightarrow> gone_at_end e pid (clock ?s0) (clock ?s0 + k)"
    using check_and_hide_adv by blast
  from c have "check_and_hide e pid uid st c ?s0 =
      (b, adv (k0 + k) (replicate (n0 + n) (Usleep 10) @ vs) s)"
    by (simp add: replicate_add)
  moreover from v have "verdict (\<not> ns_shared e pid (zygote_map s)) pid b vs" by simp
  moreover have "b \<and> vs = [] \<longrightarrow> gone_at_end e pid (clock s) (clock s + (k0 + k))"
  proof
    assume "b \<and> vs = []"
    with g have "gone_at_end e pid (clock ?s0) (clock ?s0 + k)" by simp
    then show "gone_at_end e pid (clock s) (clock s + (k0 + k))"
      by (rule gone_at_end_mono) simp_all
  qed
  ultimately show ?thesis using x by blast
qed

lemma check_pid_adv:
  "\<exists>k n vs b. check_pid e pid s = (b, adv k (replicate n (Usleep 10) @ vs) s) \<and>
      verdict (\<not> ns_shared e pid (zygote_map s)) pid b vs \<and>
      (\<not> b \<longrightarrow> excluded_at e pid (clock s)) \<and>
      (b \<and> vs = [] \<longrightarrow> gone_at_end e pid (clock s) (clock s + k) \<or>
                          (300000 \<le> n \<and> excluded_at e pid (clock s)))"
proof -
  have early: ?thesis
    if "check_pid e pid s = (True, adv j [] s)" and "gone_at_end e pid (clock s) (clock s + j)" for j
  proof -
    from that(1) have "check_pid e pid s = (True, adv j (replicate 0 (Usleep 10) @ []) s)" by simp
    with that(2) show ?thesis using verdict_Nil by blast
  qed
  show ?thesis
  proof (cases "sys_stat_proc e (clock s) pid")
    case None
    then have "check_pid e pid s = (True, adv 1 [] s)"
      by (simp add: check_pid_def tick_adv)
    moreover from None have "gone_at_end e pid (clock s) (clock s + 1)"
      by (simp add: gone_at_end_def)
    ultimately show ?thesis by (rule early)
  next
    case (Some st)
    show ?thesis
    proof (cases "sys_read_attr e (Suc (clock s)) pid = OpenFail")
      case True
      with Some have "check_pid e pid s = (True, adv 2 [] s)"
        by (simp add: check_pid_def tick_adv Let_def numeral_2_eq_2)
      moreover from True have "gone_at_end e pid (clock s) (clock s + 2)"
        by (simp add: gone_at_end_def)
      ultimately show ?thesis by (rule early)
    next
      case attr: False
      show ?thesis
      proof (cases "sys_read_cmdline e (Suc (Suc (clock s))) pid = OpenFail")
        case True
        with Some attr have "check_pid e pid s = (True, adv 3 [] s)"
          by (simp add: check_pid_def tick_adv Let_def numeral_3_eq_3 split: fread.splits)
        moreover from True have "gone_at_end e pid (clock s) (clock s + 3)"
          by (simp add: gone_at_end_def)
        ultimately show ?thesis by (rule early)
      next
        case cmd: False
        let ?uid = "sint (st_uid st)"
        let ?ctx = "fgets 1024 (sys_read_attr e (Suc (clock s)) pid) (uninit_context e)"
        let ?c = "fgets 1024 (sys_read_cmdline e (Suc (Suc (clock s))) pid) (uninit_cmdline e)"
        let ?s3 = "adv 3 [] s"
        have ex: "excluded_at e pid (clock s)" if "?uid = 0 \<or> excluded_name ?c"
        proof -
          from that consider "?uid = 0" | "excluded_name ?c" by blast
          then show ?thesis
          proof cases
            case 1
            then have "st_uid st = 0" by (simp add: signed_eq_0_iff)
            with Some show ?thesis by (simp add: excluded_at_def)
          next
            case 2
            then show ?thesis by (simp add: excluded_at_def)
          qed
        qed
        from Some attr cmd have eq: "check_pid e pid s =
          (if is_zygote_name ?c \<and> ?ctx \<noteq> ''u:r:zygote:s0''
           then if strstr ?ctx ''u:r:app_zygote:s0''
                then check_and_hide e pid ?uid st ?c ?s3
                else (case check_pid_loop1 e pid 0 ?c ?s3 of
                        (Next cmdline1, s4) \<Rightarrow> check_and_hide e pid ?uid st cmdline1 s4
                      | (Goto_not_target, s4) \<Rightarrow> not_target pid s4
                      | (Return b, s4) \<Rightarrow> (b, s4))
           else check_and_hide e pid ?uid st ?c ?s3)"
          by (simp add: check_pid_def tick_adv Let_def numeral_3_eq_3 split: fread.splits)
        show ?thesis
        proof (cases "is_zygote_name ?c \<and> ?ctx \<noteq> ''u:r:zygote:s0'' \<and>
                      \<not> strstr ?ctx ''u:r:app_zygote:s0''")
          case False
          then have cp: "check_pid e pid s = check_and_hide e pid ?uid st ?c ?s3"
            using eq by auto
          obtain k n vs b where
            c: "check_and_hide e pid ?uid st ?c (adv 3 (replicate 0 (Usleep 10)) s) =
                  (b, adv k (replicate n (Usleep 10) @ vs) s)"
            and v: "verdict (\<not> ns_shared e pid (zygote_map s)) pid b vs"
            and x: "\<not> b \<longrightarrow> ?uid = 0 \<or> excluded_name ?c"
            and g: "b \<and> vs = [] \<longrightarrow> gone_at_end e pid (clock s) (clock s + k)"
            using check_and_hide_after [of e pid ?uid st ?c 3 0 s] by blast
          from cp c have "check_pid e pid s = (b, adv k (replicate n (Usleep 10) @ vs) s)"
            by simp
          moreover from x ex have "\<not> b \<longrightarrow> excluded_at e pid (clock s)" by blast
          ultimately show ?thesis using v g by blast
        next
          case True
          then have "excluded_name ?c" by (simp add: excluded_name_def)
          then have xa: "excluded_at e pid (clock s)" using ex by blast
          obtain k n r where l1: "check_pid_loop1 e pid 0 ?c ?s3 = (r, adv k (replicate n (Usleep 10)) ?s3)"
            and r: "r \<noteq> Goto_not_target"
            and w: "\<forall>b. r = Return b \<longrightarrow>
                     b \<and> (300000 \<le> 0 + n \<or> gone_at_end e pid (clock ?s3) (clock ?s3 + k))"
            using loop1_adv by blast
          have s4: "adv k (replicate n (Usleep 10)) ?s3 = adv (3 + k) (replicate n (Usleep 10)) s"
            by simp
          show ?thesis
          proof (cases r)
            case (Return b)
            with w have b: "b" and d: "300000 \<le> n \<or> gone_at_end e pid (clock ?s3) (clock ?s3 + k)"
              by auto
            from Return True eq l1 s4 b
            have "check_pid e pid s = (True, adv (3 + k) (replicate n (Usleep 10) @ []) s)"
              by simp
            moreover from d have "gone_at_end e pid (clock s) (clock s + (3 + k)) \<or>
                (300000 \<le> n \<and> excluded_at e pid (clock s))"
            proof
              assume "300000 \<le> n" with xa show ?thesis by simp
            next
              assume "gone_at_end e pid (clock ?s3) (clock ?s3 + k)"
              then have "gone_at_end e pid (clock s) (clock s + (3 + k))"
                by (rule gone_at_end_mono) simp_all
              then show ?thesis ..
            qed
            ultimately show ?thesis using verdict_Nil by blast
          next
            case Goto_not_target
            with r show ?thesis by simp
          next
            case (Next c1)
            with True eq l1 s4
            have cp: "check_pid e pid s =
                check_and_hide e pid ?uid st c1 (adv (3 + k) (replicate n (Usleep 10)) s)"
              by simp
            obtain k' n' vs b where
              c: "check_and_hide e pid ?uid st c1 (adv (3 + k) (replicate n (Usleep 10)) s) =
                    (b, adv k' (replicate n' (Usleep 10) @ vs) s)"
              and v: "verdict (\<not> ns_shared e pid (zygote_map s)) pid b vs"
              and g: "b \<and> vs = [] \<longrightarrow> gone_at_end e pid (clock s) (clock s + k')"
              using check_and_hide_after [of e pid ?uid st c1 "3 + k" n s] by blast
            from cp c have "check_pid e pid s = (b, adv k' (replicate n' (Usleep 10) @ vs) s)"
              by simp
            then show ?thesis using v g xa by blast
          qed
        qed
      qed
    qed
  qed
qed

lemma verdict_weaken: "verdict h pid b vs \<Longrightarrow> verdict h pid True vs"
  by (auto simp: verdict_def)

lemma verdict_False: "verdict h pid False vs \<Longrightarrow> vs = []"
  by (auto simp: verdict_def)

lemma do_check_fork_loop_adv:
  "\<exists>k us vs. do_check_fork_loop e pid i s = adv k (us @ vs) s \<and> set us \<subseteq> {Usleep 10} \<and>
      verdict (\<not> ns_shared e pid (zygote_map s)) pid True vs \<and>
      (vs = [] \<longrightarrow> gone_at_end e pid (clock s) (clock s + k) \<or>
                    (300000 \<le> i + length us \<and> excluded_at e pid (clock s)))"
proof (induction e pid i s rule: do_check_fork_loop.induct)
  case (1 e pid i s)
  obtain k n vs b where cp: "check_pid e pid s = (b, adv k (replicate n (Usleep 10) @ vs) s)"
    and v: "verdict (\<not> ns_shared e pid (zygote_map s)) pid b vs"
    and x: "\<not> b \<longrightarrow> excluded_at e pid (clock s)"
    and g: "b \<and> vs = [] \<longrightarrow> gone_at_end e pid (clock s) (clock s + k) \<or>
                          (300000 \<le> n \<and> excluded_at e pid (clock s))"
    using check_pid_adv by blast
  have us: "set (replicate n (Usleep 10)) \<subseteq> {Usleep 10}" by auto
  show ?case
  proof (cases "b \<or> i \<ge> 300000")
    case True
    with cp have eq: "do_check_fork_loop e pid i s = adv k (replicate n (Usleep 10) @ vs) s"
      by (subst do_check_fork_loop.simps) (auto simp: Let_def)
    have "vs = [] \<longrightarrow> gone_at_end e pid (clock s) (clock s + k) \<or>
                    (300000 \<le> i + length (replicate n (Usleep 10)) \<and> excluded_at e pid (clock s))"
    proof (cases b)
      case True
      with g show ?thesis by auto
    next
      case False
      with \<open>b \<or> i \<ge> 300000\<close> x show ?thesis by auto
    qed
    with eq us verdict_weaken [OF v] show ?thesis by blast
  next
    case False
    with v have vs: "vs = []" by (auto dest: verdict_False)
    from False x have xa: "excluded_at e pid (clock s)" by simp
    let ?s1 = "tick (emit (Usleep 10) (snd (check_pid e pid s)))"
    from False cp have eq: "do_check_fork_loop e pid i s = do_check_fork_loop e pid (i + 1) ?s1"
      by (subst do_check_fork_loop.simps) (simp add: Let_def)
    have s1: "?s1 = adv (k + 1) (replicate n (Usleep 10) @ [Usleep 10]) s"
      using cp vs by (simp add: tick_adv emit_adv)
    from False cp 1 [of "check_pid e pid s"]
    obtain k' us' vs' where ih: "do_check_fork_loop e pid (i + 1) ?s1 = adv k' (us' @ vs') ?s1"
      and u': "set us' \<subseteq> {Usleep 10}"
      and v': "verdict (\<not> ns_shared e pid (zygote_map ?s1)) pid True vs'"
      and g': "vs' = [] \<longrightarrow> gone_at_end e pid (clock ?s1) (clock ?s1 + k') \<or>
                    (300000 \<le> i + 1 + length us' \<and> excluded_at e pid (clock ?s1))"
      by (auto simp: not_le)
    let ?us = "(replicate n (Usleep 10) @ [Usleep 10]) @ us'"
    have "do_check_fork_loop e pid i s = adv (k + 1 + k') (?us @ vs') s"
      using eq ih s1 by simp
    moreover have "set ?us \<subseteq> {Usleep 10}"
      using u' by auto
    moreover have "verdict (\<not> ns_shared e pid (zygote_map s)) pid True vs'"
      using v' s1 by simp
    moreover have "vs' = [] \<longrightarrow> gone_at_end e pid (clock s) (clock s + (k + 1 + k')) \<or>
                    (300000 \<le> i + length ?us \<and> excluded_at e pid (clock s))"
    proof
      assume "vs' = []"
      with g' have "gone_at_end e pid (clock ?s1) (clock ?s1 + k') \<or> 300000 \<le> i + 1 + length us'"
        by blast
      then show "gone_at_end e pid (clock s) (clock s + (k + 1 + k')) \<or>
                    (300000 \<le> i + length ?us \<and> excluded_at e pid (clock s))"
      proof
        assume "gone_at_end e pid (clock ?s1) (clock ?s1 + k')"
        then have "gone_at_end e pid (clock s) (clock s + (k + 1 + k'))"
          by (rule gone_at_end_mono) (simp_all add: s1)
        then show ?thesis ..
      next
        assume "300000 \<le> i + 1 + length us'"
        then have "300000 \<le> i + length ?us" by simp
        with xa show ?thesis by simp
      qed
    qed
    ultimately show ?thesis by blast
  qed
qed

section \<open>The worker and the child inspector\<close>

subsection \<open>The bitmap within its range\<close>

text \<open>
  For a pid from \<open>1\<close> to \<open>PID_MAX\<close> the index of \<open>operator[]\<close> is the pid less one, and
  \<open>detach_pid\<close> clears that bit and detaches.
\<close>

lemma index_of_pid:
  assumes "1 \<le> p" and "p \<le> int PID_MAX"
  shows "pid_set_index lp (to_size_t lp p) = nat p - 1"
proof -
  have big: "p < 2 ^ size_t_bits lp"
    using assms by (simp add: PID_MAX_def size_t_bits_def)
  with assms have m: "p mod 2 ^ size_t_bits lp = p"
    by simp
  from assms obtain q where q: "nat p = Suc q"
    by (cases "nat p") auto
  have "int q < 2 ^ size_t_bits lp"
    using big q by linarith
  then have "q < 2 ^ size_t_bits lp"
    by (metis of_nat_less_iff of_nat_numeral of_nat_power)
  then have "(Suc q + 2 ^ size_t_bits lp - 1) mod 2 ^ size_t_bits lp = q"
    by simp
  then show ?thesis
    by (simp add: pid_set_index_def to_size_t_def m q)
qed

lemma index_of_msg:
  assumes "1 \<le> m" and "m \<le> PID_MAX"
  shows "pid_set_index lp (m mod 2 ^ size_t_bits lp) = m - 1"
proof -
  have big: "PID_MAX < 2 ^ size_t_bits lp"
    by (simp add: PID_MAX_def size_t_bits_def)
  with assms have m: "m mod 2 ^ size_t_bits lp = m"
    by simp
  from assms obtain q where q: "m = Suc q"
    by (cases m) auto
  have "q < 2 ^ size_t_bits lp"
    using assms big q by simp
  then have "(Suc q + 2 ^ size_t_bits lp - 1) mod 2 ^ size_t_bits lp = q"
    by simp
  then show ?thesis
    using m q by (simp add: pid_set_index_def)
qed

lemma detach_pid_in_range:
  assumes "1 \<le> pid" and "pid \<le> int PID_MAX"
  shows "detach_pid e pid sig s =
           Inr (emit (PtraceDetach pid sig) (s\<lparr>attaches := attaches s - {nat pid - 1}\<rparr>))"
proof -
  have "nat pid - 1 < PID_MAX" using assms by linarith
  then show ?thesis
    by (simp add: detach_pid_def pid_set_put_def index_of_pid [OF assms])
qed

lemma do_check_fork_returns:
  assumes "1 \<le> fork_pid s" and "fork_pid s \<le> int PID_MAX"
  shows "\<exists>s'. do_check_fork e s = Inr s'"
  using assms by (simp add: do_check_fork_def Let_def detach_pid_in_range)

subsection \<open>What the worker adds to the trace\<close>

text \<open>The detach, then sleeps, then at most one verdict on the child.\<close>

lemma do_check_fork_shape:
  assumes "do_check_fork e s = Inr s'" and "fork_pid s \<noteq> 0"
  shows "\<exists>us vs. trace s' = trace s @ PtraceDetach (fork_pid s) 0 # us @ vs \<and>
           set us \<subseteq> {Usleep 10} \<and>
           verdict (\<not> ns_shared e (fork_pid s) (zygote_map s)) (fork_pid s) True vs"
proof -
  let ?pid = "fork_pid s"
  from assms obtain a where
    a: "pid_set_put (lp64 e) (attaches s) (to_size_t (lp64 e) ?pid) False = Inr a"
    by (auto simp: do_check_fork_def detach_pid_def Let_def split: sum.splits)
  let ?s2 = "emit (PtraceDetach ?pid 0) (s\<lparr>fork_pid := 0, attaches := a\<rparr>)"
  from assms a have s': "s' = do_check_fork_loop e ?pid 0 ?s2"
    by (simp add: do_check_fork_def detach_pid_def Let_def)
  obtain k us vs where l: "do_check_fork_loop e ?pid 0 ?s2 = adv k (us @ vs) ?s2"
    and us: "set us \<subseteq> {Usleep 10}"
    and v: "verdict (\<not> ns_shared e ?pid (zygote_map ?s2)) ?pid True vs"
    using do_check_fork_loop_adv by blast
  have "trace s' = trace s @ PtraceDetach ?pid 0 # us @ vs"
    using s' l by (simp add: emit_def)
  moreover have "zygote_map ?s2 = zygote_map s"
    by (simp add: emit_def)
  ultimately show ?thesis using us v by auto
qed


lemma count_sleeps:
  "set us \<subseteq> {Usleep 10} \<Longrightarrow> x \<noteq> Usleep 10 \<Longrightarrow> count_list us x = 0"
  by (induction us) auto

lemma verdict_cases:
  assumes "verdict h pid True vs"
  obtains (idle) "vs = []"
    | (cont) "vs = [Kill pid SIGCONT]"
    | (stop_cont) uid c where "vs = [Kill pid SIGSTOP, IsHideTarget uid c 95, Kill pid SIGCONT]"
    | (stop_hide) uid c where "h" "vs = [Kill pid SIGSTOP, IsHideTarget uid c 95, HideDaemon pid]"
  using assms unfolding verdict_def by blast

lemma sig_neq [simp]: "SIGCONT \<noteq> SIGSTOP" "SIGSTOP \<noteq> SIGCONT"
  by (simp_all add: SIGCONT_def SIGSTOP_def)




subsection \<open>Runs of the worker in the small world\<close>

lemmas inspector_defs =
  do_check_fork_def detach_pid_def pid_set_put_def pid_set_index_def to_size_t_def
  size_t_bits_def PID_MAX_def check_pid_def check_and_hide_def stop_and_decide_def
  not_target_def read_ns_def ns_not_separated_def is_zygote_name_def fgets_def tick_def
  emit_def Let_def SIGSTOP_def SIGCONT_def

lemmas scenario_defs =
  target_env_def dead_env_def shared_env_def nsfail_env_def forked_state_def boot_state_def
  ns_zygote_def ns_app_def

lemma target_run:
  "do_check_fork target_env forked_state =
     Inr (forked_state\<lparr>fork_pid := 0, clock := 5,
            trace := [PtraceDetach 1100 0, Kill 1100 SIGSTOP,
                      IsHideTarget 10050 ''com.example.target'' 95, HideDaemon 1100]\<rparr>)"
  by (simp add: inspector_defs scenario_defs
        do_check_fork_loop.simps [of _ _ 0] check_pid_loop2.simps [of _ _ 0])









subsection \<open>The claims on the inspector\<close>




text \<open>
  At the comparison of lines 271 to 280 itself: when the namespace read there is that of a
  registered zygote, the inspector goes to \<open>not_target\<close>, whatever \<open>is_hide_target\<close>
  has answered.
\<close>

lemma stop_and_decide_not_separated:
  assumes "sys_stat_ns e (clock s) pid = Some st'" and "ns_not_separated st' (zygote_map s)"
  shows "\<exists>k. stop_and_decide e pid uid st c s =
           (True, adv k [Kill pid SIGSTOP, IsHideTarget uid c 95, Kill pid SIGCONT] s)"
proof -
  from assms have "ns_not_separated (ns_seen e pid st s) (zygote_map s)"
    by (simp add: ns_seen_def)
  then show ?thesis
    by (cases "ext_is_hide_target e uid c 95") (auto simp: stop_and_decide_eq)
qed

text \<open>
  As long as the namespace of the child can be read: when it reads, at every time, as that
  of a zygote of the registry, the worker returns without ever calling \<open>hide_daemon\<close>,
  and if it has stopped the child, the last thing it does is to resume it with
  \<open>SIGCONT\<close>.
\<close>

lemma readable_shared_namespace_never_hidden:
  assumes "fork_pid s = pid" and "1 \<le> pid" and "pid \<le> int PID_MAX"
    and "\<forall>t. \<exists>st. sys_stat_ns e t pid = Some st \<and> ns_not_separated st (zygote_map s)"
  shows "\<exists>s' ev. do_check_fork e s = Inr s' \<and> trace s' = trace s @ ev \<and>
           (\<forall>q. HideDaemon q \<notin> set ev) \<and>
           (Kill pid SIGSTOP \<in> set ev \<longrightarrow> last ev = Kill pid SIGCONT)"
proof -
  from assms obtain s' where run: "do_check_fork e s = Inr s'"
    using do_check_fork_returns [of s e] by auto
  from assms(4) have sh: "ns_shared e pid (zygote_map s)"
    by (simp add: ns_shared_def)
  from run assms obtain us vs where
    tr: "trace s' = trace s @ PtraceDetach pid 0 # us @ vs"
    and us: "set us \<subseteq> {Usleep 10}"
    and v: "verdict (\<not> ns_shared e pid (zygote_map s)) pid True vs"
    using do_check_fork_shape [of e s s'] by auto
  let ?ev = "PtraceDetach pid 0 # us @ vs"
  have n: "Kill pid SIGSTOP \<notin> set us" "\<And>q. HideDaemon q \<notin> set us"
    using us by auto
  from v have "(\<forall>q. HideDaemon q \<notin> set ?ev) \<and>
      (Kill pid SIGSTOP \<in> set ?ev \<longrightarrow> last ?ev = Kill pid SIGCONT)"
    using n sh by (cases rule: verdict_cases) simp_all
  with tr run show ?thesis by blast
qed

text \<open>
  Claim C3 at a failing input. The child 1100 has not left the mount namespace of the
  registered zygote 1000: at the times 0 to 3 its namespace reads as the zygote's. It is
  killed once it has been stopped, and the \<open>read_ns\<close> of line 272, at time 4, fails. Its
  result is dropped, \<open>st\<close> keeps the device and inode of the proc directory, which no
  zygote has, and \<open>hide_daemon\<close> is called on the child.
\<close>

theorem unread_shared_namespace_hidden:
  "map (\<lambda>t. sys_stat_ns dying_env t 1100) [0, 1, 2, 3] =
     [Some ns_zygote, Some ns_zygote, Some ns_zygote, Some ns_zygote] \<and>
   ns_not_separated ns_zygote (zygote_map forked_state) \<and>
   sys_stat_ns dying_env 4 1100 = None \<and>
   map_sum id trace (do_check_fork dying_env forked_state) =
     Inr [PtraceDetach 1100 0, Kill 1100 SIGSTOP,
          IsHideTarget 10050 ''com.example.target'' 95, HideDaemon 1100]"
  by (simp add: inspector_defs scenario_defs dying_env_def
        do_check_fork_loop.simps [of _ _ 0] check_pid_loop2.simps [of _ _ 0])

text \<open>
  Claim C4. In every run of the worker for a forked child \<open>pid\<close>, every call of
  \<open>is_hide_target\<close> comes after a \<open>SIGSTOP\<close> to the child; and when the child is
  classified as a target (line 282: it is handed to \<open>hide_daemon\<close>), it has been sent
  exactly one \<open>SIGSTOP\<close> and the monitor sends it no \<open>SIGCONT\<close>.
\<close>

theorem stop_before_classify:
  assumes "fork_pid s = pid" and "1 \<le> pid" and "pid \<le> int PID_MAX"
  shows "\<exists>s' ev. do_check_fork e s = Inr s' \<and> trace s' = trace s @ ev \<and>
           (\<forall>pre uid c n post. ev = pre @ IsHideTarget uid c n # post \<longrightarrow>
               Kill pid SIGSTOP \<in> set pre) \<and>
           (HideDaemon pid \<in> set ev \<longrightarrow>
               count_list ev (Kill pid SIGSTOP) = 1 \<and> Kill pid SIGCONT \<notin> set ev)"
proof -
  from assms obtain s' where run: "do_check_fork e s = Inr s'"
    using do_check_fork_returns [of s e] by auto
  from run assms obtain us vs where
    tr: "trace s' = trace s @ PtraceDetach pid 0 # us @ vs"
    and us: "set us \<subseteq> {Usleep 10}"
    and v: "verdict (\<not> ns_shared e pid (zygote_map s)) pid True vs"
    using do_check_fork_shape [of e s s'] by auto
  let ?ev = "PtraceDetach pid 0 # us @ vs"
  have n: "Kill pid SIGSTOP \<notin> set us" "Kill pid SIGCONT \<notin> set us" "HideDaemon pid \<notin> set us"
    "count_list us (Kill pid SIGSTOP) = 0"
    using us by (auto simp: count_sleeps)
  have q: "Kill pid SIGSTOP \<in> set pre"
    if "?ev = pre @ IsHideTarget uid c n # post" for pre uid c n post
  proof -
    from that have "IsHideTarget uid c n \<in> set ?ev" by simp
    with us have "IsHideTarget uid c n \<in> set vs" by auto
    with v obtain x where vs: "vs = [Kill pid SIGSTOP, IsHideTarget uid c n, x]"
      and x: "x \<noteq> IsHideTarget uid c n"
      by (cases rule: verdict_cases) auto
    have "IsHideTarget uid c n \<notin> set (PtraceDetach pid 0 # us @ [Kill pid SIGSTOP])"
      using us by auto
    moreover have "IsHideTarget uid c n \<notin> set [x]"
      using x by simp
    moreover from that vs
    have "(PtraceDetach pid 0 # us @ [Kill pid SIGSTOP]) @ IsHideTarget uid c n # [x] =
        pre @ IsHideTarget uid c n # post"
      by simp
    ultimately have "PtraceDetach pid 0 # us @ [Kill pid SIGSTOP] = pre"
      using append_Cons_eq_iff by metis
    then show ?thesis by auto
  qed
  from v have "HideDaemon pid \<in> set ?ev \<longrightarrow>
               count_list ?ev (Kill pid SIGSTOP) = 1 \<and> Kill pid SIGCONT \<notin> set ?ev"
    using n by (cases rule: verdict_cases) simp_all
  with q tr run show ?thesis by blast
qed

text \<open>
  The theorem of C4 at the target child: \<open>SIGSTOP\<close>, the question, the hide daemon, and
  nothing else after the detach.
\<close>

theorem stop_before_classify_witness:
  "fork_pid forked_state = 1100 \<and> (1::int) \<le> 1100 \<and> 1100 \<le> int PID_MAX \<and>
   (\<exists>s' ev. do_check_fork target_env forked_state = Inr s' \<and>
      trace s' = trace forked_state @ ev \<and>
      (\<forall>pre uid c n post. ev = pre @ IsHideTarget uid c n # post \<longrightarrow>
          Kill 1100 SIGSTOP \<in> set pre) \<and>
      (HideDaemon 1100 \<in> set ev \<longrightarrow>
          count_list ev (Kill 1100 SIGSTOP) = 1 \<and> Kill 1100 SIGCONT \<notin> set ev)) \<and>
   map_sum id trace (do_check_fork target_env forked_state) =
     Inr [PtraceDetach 1100 0, Kill 1100 SIGSTOP,
          IsHideTarget 10050 ''com.example.target'' 95, HideDaemon 1100]"
proof -
  have h: "fork_pid forked_state = 1100" "(1::int) \<le> 1100" "1100 \<le> int PID_MAX"
    by (simp_all add: forked_state_def boot_state_def PID_MAX_def)
  have "map_sum id trace (do_check_fork target_env forked_state) =
     Inr [PtraceDetach 1100 0, Kill 1100 SIGSTOP,
          IsHideTarget 10050 ''com.example.target'' 95, HideDaemon 1100]"
    by (simp add: target_run SIGSTOP_def)
  with stop_before_classify [OF h, of target_env] h show ?thesis
    by blast
qed

text \<open>
  Claim C8 at a failing input. Every read of the proc files in \<open>check_pid\<close> returns
  true when it fails, except the \<open>read_ns\<close> of line 272, whose result is dropped
  (\<open>new_zygote\<close> checks it). When the namespace of the stopped child cannot be read,
  \<open>st\<close> keeps the device and inode of the proc directory, no zygote matches, and
  \<open>hide_daemon\<close> is called.
\<close>

theorem unchecked_ns_read_reaches_hide_daemon:
  "sys_stat_ns nsfail_env 4 1100 = None \<and>
   check_pid nsfail_env 1100 forked_state =
     (True, forked_state\<lparr>clock := 5,
              trace := [Kill 1100 SIGSTOP, IsHideTarget 10050 ''com.example.target'' 95,
                        HideDaemon 1100]\<rparr>)"
  by (simp add: inspector_defs scenario_defs check_pid_loop2.simps [of _ _ 0])

section \<open>The registry, the main loop and the handlers\<close>

subsection \<open>The registry as a \<open>std::map\<close>\<close>

lemma map_find_assign: "map_find (map_assign m k v) = (map_find m)(k \<mapsto> v)"
  unfolding map_find_def
  by (induction m) (auto simp: fun_eq_iff)

lemma keys_map_assign: "set (map fst (map_assign m k v)) = insert k (set (map fst m))"
proof (induction m)
  case Nil
  then show ?case by simp
next
  case (Cons a m)
  obtain k' v' where a: "a = (k', v')" by (cases a)
  have "set (map fst ((k', v') # map_assign m k v)) = insert k (set (map fst ((k', v') # m)))"
    using Cons.IH by (simp add: insert_commute)
  then show ?case
    unfolding a by (simp add: insert_commute)
qed

lemma length_map_assign_present:
  "sorted_wrt (<) (map fst m) \<Longrightarrow> k \<in> fst ` set m \<Longrightarrow> length (map_assign m k v) = length m"
  by (induction m) fastforce+

lemma map_size_assign_present:
  "sorted_wrt (<) (map fst m) \<Longrightarrow> map_find m k \<noteq> None \<Longrightarrow>
     map_size (map_assign m k v) = map_size m"
  by (simp add: map_find_def map_size_def map_of_eq_None_iff length_map_assign_present)

lemma map_size_assign_absent:
  "map_find m k = None \<Longrightarrow> map_size (map_assign m k v) = Suc (map_size m)"
  unfolding map_find_def map_size_def
  by (induction m) (auto simp: map_of_eq_None_iff)

lemma sorted_map_assign:
  "sorted_wrt (<) (map fst m) \<Longrightarrow> sorted_wrt (<) (map fst (map_assign m k v))"
proof (induction m)
  case Nil
  then show ?case by simp
next
  case (Cons a m)
  obtain k' v' where a: "a = (k', v')" by (cases a)
  from Cons.prems a have lt: "\<forall>x\<in>set m. k' < fst x" and sm: "sorted_wrt (<) (map fst m)"
    by auto
  show ?case
  proof (cases "k < k'")
    case True
    with lt have "\<forall>x\<in>set m. k < fst x" by force
    with True a Cons.prems show ?thesis by auto
  next
    case False
    show ?thesis
    proof (cases "k = k'")
      case True
      with a Cons.prems show ?thesis by auto
    next
      case ne: False
      with False have "k' < k" by simp
      with lt have "\<forall>x\<in>set (map fst (map_assign m k v)). k' < x"
        unfolding keys_map_assign by auto
      with False ne a Cons.IH [OF sm] show ?thesis by auto
    qed
  qed
qed

lemma sorted_map_erase:
  "sorted_wrt (<) (map fst m) \<Longrightarrow> sorted_wrt (<) (map fst (map_erase m k))"
  by (simp add: map_erase_def sorted_wrt_map sorted_wrt_filter)

text \<open>\<open>new_zygote\<close> keeps the registry in key order, as a \<open>std::map\<close> is.\<close>

lemma new_zygote_sorted:
  "sorted_wrt (<) (map fst (zygote_map s)) \<Longrightarrow>
     sorted_wrt (<) (map fst (zygote_map (new_zygote e pid s)))"
  by (auto simp: new_zygote_def read_ns_def tick_def emit_def sorted_map_assign
        split: option.splits)

text \<open>
  Claim C5. \<open>new_zygote(pid)\<close>: when the mount namespace cannot be read, nothing
  changes (only the time of the read has passed); when the pid is already registered,
  only its fingerprint is overwritten, and nothing is attached; otherwise the record is
  inserted and the pid is attached, waited for, given the options trace-fork, trace-vfork
  and trace-exit, and resumed, in this order. In both cases the registry afterwards
  maps the pid to the fingerprint just read and every other pid as before; overwriting
  keeps the size of a registry that is in key order, inserting adds one to it.
\<close>

theorem new_zygote_cases:
  "(sys_stat_ns e (clock s) pid = None \<longrightarrow> new_zygote e pid s = s\<lparr>clock := Suc (clock s)\<rparr>) \<and>
   (\<forall>st. sys_stat_ns e (clock s) pid = Some st \<and> map_find (zygote_map s) pid \<noteq> None \<longrightarrow>
        new_zygote e pid s =
          s\<lparr>clock := Suc (clock s), zygote_map := map_assign (zygote_map s) pid st\<rparr> \<and>
        map_find (map_assign (zygote_map s) pid st) = (map_find (zygote_map s))(pid \<mapsto> st) \<and>
        (sorted_wrt (<) (map fst (zygote_map s)) \<longrightarrow>
           map_size (map_assign (zygote_map s) pid st) = map_size (zygote_map s))) \<and>
   (\<forall>st. sys_stat_ns e (clock s) pid = Some st \<and> map_find (zygote_map s) pid = None \<longrightarrow>
        new_zygote e pid s =
          s\<lparr>clock := Suc (Suc (clock s)), zygote_map := map_assign (zygote_map s) pid st,
            trace := trace s @ [PtraceAttach pid, Waitpid pid,
                                PtraceSetOptions pid {TRACEFORK, TRACEVFORK, TRACEEXIT},
                                PtraceCont pid 0]\<rparr> \<and>
        map_find (map_assign (zygote_map s) pid st) = (map_find (zygote_map s))(pid \<mapsto> st) \<and>
        map_size (map_assign (zygote_map s) pid st) = Suc (map_size (zygote_map s)))"
  by (auto simp: new_zygote_def read_ns_def tick_def emit_def map_find_assign
        map_size_assign_present map_size_assign_absent)

text \<open>The three cases of C5 in the small world.\<close>

theorem new_zygote_cases_witness:
  "sys_stat_ns nsfail_env (clock boot_state) 1100 = None \<and>
   new_zygote nsfail_env 1100 boot_state = boot_state\<lparr>clock := 1\<rparr> \<and>
   sys_stat_ns target_env (clock forked_state) 1000 = Some ns_zygote \<and>
   map_find (zygote_map forked_state) 1000 \<noteq> None \<and>
   new_zygote target_env 1000 forked_state = forked_state\<lparr>clock := 1\<rparr> \<and>
   sys_stat_ns target_env (clock boot_state) 1000 = Some ns_zygote \<and>
   map_find (zygote_map boot_state) 1000 = None \<and>
   new_zygote target_env 1000 boot_state =
     boot_state\<lparr>clock := 2, zygote_map := [(1000, ns_zygote)],
       trace := [PtraceAttach 1000, Waitpid 1000,
                 PtraceSetOptions 1000 {TRACEFORK, TRACEVFORK, TRACEEXIT}, PtraceCont 1000 0]\<rparr>"
proof -
  have h: "sys_stat_ns nsfail_env (clock boot_state) 1100 = None"
    "sys_stat_ns target_env (clock forked_state) 1000 = Some ns_zygote"
    "map_find (zygote_map forked_state) 1000 \<noteq> None"
    "sys_stat_ns target_env (clock boot_state) 1000 = Some ns_zygote"
    "map_find (zygote_map boot_state) 1000 = None"
    by (simp_all add: nsfail_env_def target_env_def forked_state_def boot_state_def map_find_def)
  have "new_zygote nsfail_env 1100 boot_state = boot_state\<lparr>clock := Suc (clock boot_state)\<rparr>"
    using new_zygote_cases [of nsfail_env boot_state 1100] h(1) by blast
  then have a: "new_zygote nsfail_env 1100 boot_state = boot_state\<lparr>clock := 1\<rparr>"
    by (simp add: boot_state_def)
  have "new_zygote target_env 1000 forked_state =
      forked_state\<lparr>clock := Suc (clock forked_state),
        zygote_map := map_assign (zygote_map forked_state) 1000 ns_zygote\<rparr>"
    using new_zygote_cases [of target_env forked_state 1000] h(2,3) by blast
  then have b: "new_zygote target_env 1000 forked_state = forked_state\<lparr>clock := 1\<rparr>"
    by (simp add: forked_state_def boot_state_def)
  have "new_zygote target_env 1000 boot_state =
      boot_state\<lparr>clock := Suc (Suc (clock boot_state)),
        zygote_map := map_assign (zygote_map boot_state) 1000 ns_zygote,
        trace := trace boot_state @ [PtraceAttach 1000, Waitpid 1000,
                   PtraceSetOptions 1000 {TRACEFORK, TRACEVFORK, TRACEEXIT}, PtraceCont 1000 0]\<rparr>"
    using new_zygote_cases [of target_env boot_state 1000] h(4,5) by blast
  then have c: "new_zygote target_env 1000 boot_state =
     boot_state\<lparr>clock := 2, zygote_map := [(1000, ns_zygote)],
       trace := [PtraceAttach 1000, Waitpid 1000,
                 PtraceSetOptions 1000 {TRACEFORK, TRACEVFORK, TRACEEXIT}, PtraceCont 1000 0]\<rparr>"
    by (simp add: boot_state_def)
  from h a b c show ?thesis by blast
qed

subsection \<open>One turn of the main loop\<close>

lemma to_int_small: "m \<le> PID_MAX \<Longrightarrow> to_int m = int m"
  by (simp add: to_int_def PID_MAX_def Let_def)

text \<open>
  Claim C6. When \<open>waitpid\<close> returns a ptrace-event-stop (\<open>SIGTRAP\<close> with a nonzero
  event) with event fork or vfork from a pid of the registry, and the event message is the
  child's pid (within \<open>1\<close> to \<open>PID_MAX\<close>), the turn of the loop records the child in
  \<open>fork_pid\<close>, clears its bit, detaches it, starts a worker thread and resumes the
  zygote, in this order, and changes nothing else but the clock and the signal mask.
\<close>

theorem fork_event_handled:
  assumes "0 \<le> pid" and "WIFSTOPPED status" and "WSTOPSIG status = SIGTRAP"
    and "WEVENT e status = PTRACE_EVENT_FORK \<or> WEVENT e status = PTRACE_EVENT_VFORK"
    and "map_count (zygote_map s) pid \<noteq> 0"
    and "sys_geteventmsg e (Suc (clock s)) pid = child" and "1 \<le> child" and "child \<le> PID_MAX"
  shows "proc_monitor_iter e pid status errno s =
           Inr (s\<lparr>sigmask := orig_mask s, clock := Suc (Suc (clock s)),
                  fork_pid := int child, attaches := attaches s - {child - 1},
                  trace := trace s @ [PtraceGetEventMsg pid, PtraceDetach (int child) 0,
                                      NewDaemonThread, PtraceCont pid 0]\<rparr>)"
proof -
  let ?s2 = "(tick (s\<lparr>sigmask := sigmask s - {SIGTERMTHRD, SIGIO, SIGALRM}\<rparr>))
               \<lparr>sigmask := orig_mask s\<rparr>"
  have ev: "WEVENT e status \<noteq> 0"
    using assms(4) by (auto simp: PTRACE_EVENT_FORK_def PTRACE_EVENT_VFORK_def)
  have iter: "proc_monitor_iter e pid status errno s = on_ptrace_event e pid (WEVENT e status) ?s2"
    using assms(1-3) ev by (simp add: proc_monitor_iter_def Let_def tick_def)
  have msg: "sys_geteventmsg e (clock ?s2) pid mod 2 ^ size_t_bits (lp64 e) = child"
    using assms(6-8) by (simp add: tick_def PID_MAX_def size_t_bits_def)
  have idx: "pid_set_index (lp64 e) child = child - 1"
    using index_of_msg [OF assms(7,8), of "lp64 e"] assms(8)
    by (simp add: PID_MAX_def size_t_bits_def)
  have rng: "child - 1 < PID_MAX" using assms(7,8) by simp
  have c: "(1::int) \<le> int child" "int child \<le> int PID_MAX"
    using assms(7,8) by simp_all
  show ?thesis
    unfolding iter on_ptrace_event_def msg Let_def
    using assms(4,5) rng
    by (simp add: pid_set_put_def idx to_int_small [OF assms(8)] detach_pid_in_range [OF c]
          tick_def emit_def)
qed

text \<open>The zygote 1000 forks the child 1100.\<close>

theorem fork_event_handled_witness:
  "(0::int) \<le> 1000 \<and> WIFSTOPPED (stop_status PTRACE_EVENT_FORK SIGTRAP) \<and>
   WSTOPSIG (stop_status PTRACE_EVENT_FORK SIGTRAP) = SIGTRAP \<and>
   WEVENT target_env (stop_status PTRACE_EVENT_FORK SIGTRAP) = PTRACE_EVENT_FORK \<and>
   map_count (zygote_map forked_state) 1000 \<noteq> 0 \<and>
   sys_geteventmsg target_env (Suc (clock forked_state)) 1000 = 1100 \<and>
   (1::nat) \<le> 1100 \<and> 1100 \<le> PID_MAX \<and>
   proc_monitor_iter target_env 1000 (stop_status PTRACE_EVENT_FORK SIGTRAP) 0 forked_state =
     Inr (forked_state\<lparr>clock := 2, fork_pid := 1100,
            trace := [PtraceGetEventMsg 1000, PtraceDetach 1100 0, NewDaemonThread,
                      PtraceCont 1000 0]\<rparr>)"
proof -
  have h: "(0::int) \<le> 1000" "WIFSTOPPED (stop_status PTRACE_EVENT_FORK SIGTRAP)"
    "WSTOPSIG (stop_status PTRACE_EVENT_FORK SIGTRAP) = SIGTRAP"
    "WEVENT target_env (stop_status PTRACE_EVENT_FORK SIGTRAP) = PTRACE_EVENT_FORK \<or>
     WEVENT target_env (stop_status PTRACE_EVENT_FORK SIGTRAP) = PTRACE_EVENT_VFORK"
    "map_count (zygote_map forked_state) 1000 \<noteq> 0"
    "sys_geteventmsg target_env (Suc (clock forked_state)) 1000 = 1100"
    "(1::nat) \<le> 1100" "1100 \<le> PID_MAX"
    by (simp_all add: PID_MAX_def WIFSTOPPED_def WSTOPSIG_def stop_status_def SIGTRAP_def
          PTRACE_EVENT_FORK_def target_env_def forked_state_def boot_state_def map_count_def
          map_find_def)
  have w: "WEVENT target_env (stop_status PTRACE_EVENT_FORK SIGTRAP) = PTRACE_EVENT_FORK"
    by (simp add: stop_status_def SIGTRAP_def PTRACE_EVENT_FORK_def target_env_def)
  from fork_event_handled [OF h, of 0]
  have "proc_monitor_iter target_env 1000 (stop_status PTRACE_EVENT_FORK SIGTRAP) 0 forked_state =
     Inr (forked_state\<lparr>clock := 2, fork_pid := 1100,
            trace := [PtraceGetEventMsg 1000, PtraceDetach 1100 0, NewDaemonThread,
                      PtraceCont 1000 0]\<rparr>)"
    by (simp add: forked_state_def boot_state_def)
  with h w show ?thesis by blast
qed

lemma is_process_eq:
  "is_process e pid t =
     ((case sys_read_status e (clock t) pid of
         None \<Rightarrow> False
       | Some lines \<Rightarrow> is_process_loop pid (uninit_key e) (uninit_tgid e) lines), tick t)"
  by (simp add: is_process_def split: option.splits)

lemma on_sigstop_result:
  assumes "1 \<le> pid" and "pid \<le> int PID_MAX"
  shows "on_sigstop e pid t =
           Inr (if nat pid - 1 \<in> attaches t
                then emit (PtraceCont pid 0)
                       (emit (PtraceSetOptions pid {TRACECLONE, TRACEEXEC, TRACEEXIT}) t)
                else if fst (is_process e pid t)
                then emit (PtraceCont pid 0)
                       (emit (PtraceSetOptions pid {TRACECLONE, TRACEEXEC, TRACEEXIT})
                         ((tick t)\<lparr>attaches := insert (nat pid - 1) (attaches t)\<rparr>))
                else emit (PtraceDetach pid 0) (tick t))"
proof -
  have rng: "nat pid - 1 < PID_MAX" using assms by linarith
  note idx = index_of_pid [OF assms, of "lp64 e"]
  show ?thesis
  proof (cases "nat pid - 1 \<in> attaches t")
    case True
    then show ?thesis
      using rng by (simp add: on_sigstop_def pid_set_get_def idx)
  next
    case False
    then have "attaches t - {nat pid - 1} = attaches t" by simp
    with False show ?thesis
      using rng
      by (simp add: on_sigstop_def pid_set_get_def pid_set_put_def idx is_process_eq tick_def
            detach_pid_in_range [OF assms] emit_def)
  qed
qed

lemma isspace_code: "isspace c \<Longrightarrow> (of_char c :: nat) \<in> {32, 9, 10, 11, 12, 13}"
  by (auto simp add: isspace_def)

lemma digit_char:
  assumes "d < 10"
  shows "isdigit (char_of (48 + d))" and "\<not> isspace (char_of (48 + d))"
    and "char_of (48 + d) \<noteq> CHR ''-''" and "char_of (48 + d) \<noteq> CHR ''+''"
    and "int (of_char (char_of (48 + d))) - 48 = int d"
proof -
  have v: "(of_char (char_of (48 + d)) :: nat) = 48 + d" using assms by simp
  show "isdigit (char_of (48 + d))" using assms by (simp add: isdigit_def)
  show "\<not> isspace (char_of (48 + d))"
  proof
    assume "isspace (char_of (48 + d))"
    from isspace_code [OF this] show False unfolding v by simp
  qed
  show "char_of (48 + d) \<noteq> CHR ''-''"
  proof
    assume "char_of (48 + d) = CHR ''-''"
    then have "(of_char (char_of (48 + d)) :: nat) = of_char CHR ''-''" by simp
    then show False unfolding v by simp
  qed
  show "char_of (48 + d) \<noteq> CHR ''+''"
  proof
    assume "char_of (48 + d) = CHR ''+''"
    then have "(of_char (char_of (48 + d)) :: nat) = of_char CHR ''+''" by simp
    then show False unfolding v by simp
  qed
  show "int (of_char (char_of (48 + d))) - 48 = int d" using v by simp
qed

lemma decimal_nat_digits:
  "decimal_nat n \<noteq> [] \<and> (\<forall>c\<in>set (decimal_nat n). isdigit c) \<and>
   \<not> isspace (hd (decimal_nat n)) \<and> hd (decimal_nat n) \<noteq> CHR ''-'' \<and>
   hd (decimal_nat n) \<noteq> CHR ''+'' \<and>
   foldl (\<lambda>a c. 10 * a + (int (of_char c) - 48)) 0 (decimal_nat n) = int n"
proof (induction n rule: decimal_nat.induct)
  case (1 n)
  show ?case
  proof (cases "n < 10")
    case True
    then show ?thesis
      by (subst (1 2 3 4 5 6) decimal_nat.simps) (simp add: digit_char)
  next
    case False
    note ih = "1.IH" [OF False]
    have m: "n mod 10 < 10" by simp
    have eq: "decimal_nat n = decimal_nat (n div 10) @ [char_of (48 + n mod 10)]"
      using False by (subst decimal_nat.simps) simp
    have "int (n div 10) * 10 + int (n mod 10) = int n"
      by (metis mult.commute of_nat_add of_nat_mult of_nat_numeral div_mult_mod_eq)
    then show ?thesis
      unfolding eq using ih digit_char [OF m] by (simp add: mult.commute)
  qed
qed

lemma scan_s_key:
  assumes "key \<noteq> []" and "\<forall>c\<in>set key. \<not> isspace c" and "isspace c"
  shows "scan_s (key @ c # v) = Some key"
proof -
  obtain k ks where k: "key = k # ks" using assms(1) by (cases key) auto
  have d: "dropWhile isspace (key @ c # v) = key @ c # v"
    using assms(2) by (simp add: k)
  have t: "takeWhile (\<lambda>c. \<not> isspace c) (key @ c # v) = key"
    using assms(2,3) by (simp add: takeWhile_append2)
  show ?thesis using assms(1) by (simp add: scan_s_def d t)
qed

lemma scan_skip_d_decimal:
  assumes "key \<noteq> []" and "\<forall>c\<in>set key. \<not> isspace c"
  shows "scan_skip_d (key @ CHR 0x09 # decimal_nat n @ [CHR 0x0A]) =
           Some (store_int (strtoimax_sat (int n)))"
proof -
  let ?l = "key @ CHR 0x09 # decimal_nat n @ [CHR 0x0A]"
  note dn = decimal_nat_digits [of n]
  obtain k ks where k: "key = k # ks" using assms(1) by (cases key) auto
  obtain x xs where x: "decimal_nat n = x # xs" using dn by (cases "decimal_nat n") auto
  have sp: "isspace (CHR 0x09)" by (simp add: isspace_def)
  have nl: "\<not> isdigit (CHR 0x0A)" by (simp add: isdigit_def)
  have d: "dropWhile isspace ?l = ?l" using assms(2) by (simp add: k)
  have t: "takeWhile (\<lambda>c. \<not> isspace c) ?l = key"
    using assms(2) sp by (simp add: takeWhile_append2)
  have r: "dropWhile (\<lambda>c. \<not> isspace c) ?l = CHR 0x09 # decimal_nat n @ [CHR 0x0A]"
    using assms(2) sp by (simp add: dropWhile_append2)
  have d2: "dropWhile isspace (CHR 0x09 # decimal_nat n @ [CHR 0x0A]) = decimal_nat n @ [CHR 0x0A]"
    using sp dn by (simp add: x)
  have t2: "takeWhile isdigit (decimal_nat n @ [CHR 0x0A]) = decimal_nat n"
    using dn nl by (simp add: takeWhile_append2)
  have hd2: "hd (decimal_nat n @ [CHR 0x0A]) = hd (decimal_nat n)" using dn by simp
  have sd: "scan_d (CHR 0x09 # decimal_nat n @ [CHR 0x0A]) = Some (store_int (strtoimax_sat (int n)))"
    unfolding scan_d_def d2 using dn by (simp add: Let_def hd2 t2)
  show ?thesis
    using assms(1) by (simp add: scan_skip_d_def d t r sd)
qed

lemma scan_s_first_word: "first_word l \<noteq> [] \<Longrightarrow> scan_s l = Some (first_word l)"
proof -
  assume a: "first_word l \<noteq> []"
  then obtain c cs where l: "l = c # cs" and c: "\<not> isspace c"
    by (cases l) (auto simp add: first_word_def split: if_splits)
  then have "dropWhile isspace l = l" by simp
  then show ?thesis using a by (simp add: scan_s_def first_word_def)
qed

lemma stored_tgid:
  assumes "0 \<le> pid" and "pid < 2 ^ 31"
  shows "(store_int (strtoimax_sat (int n)) = pid) = (n < 2 ^ 63 \<and> int n mod 2 ^ 32 = pid)"
proof (cases "n < 2 ^ 63")
  case True
  then have "int n < 2 ^ 63" by (metis of_nat_less_iff of_nat_numeral of_nat_power)
  then have s: "strtoimax_sat (int n) = int n" by (simp add: strtoimax_sat_def)
  show ?thesis using True assms unfolding s store_int_def Let_def by auto
next
  case False
  then have "(2::int) ^ 63 \<le> int n" by (metis not_less of_nat_le_iff of_nat_numeral of_nat_power)
  then have s: "strtoimax_sat (int n) = 2 ^ 63 - 1" by (simp add: strtoimax_sat_def)
  show ?thesis using False assms unfolding s store_int_def Let_def by simp
qed

lemma is_process_loop_status:
  assumes "\<forall>l\<in>set pre. first_word l \<noteq> [] \<and> first_word l \<noteq> ''Tgid:''"
    and "0 \<le> pid" and "pid < 2 ^ 31"
  shows "is_process_loop pid key tgid
           (pre @ (''Tgid:'' @ CHR 0x09 # decimal_nat n @ [CHR 0x0A]) # rest) =
         (n < 2 ^ 63 \<and> int n mod 2 ^ 32 = pid)"
  using assms(1)
proof (induction pre arbitrary: key)
  case Nil
  have k: "''Tgid:'' \<noteq> []" "\<forall>c\<in>set ''Tgid:''. \<not> isspace c" "isspace (CHR 0x09)"
    by (simp_all add: isspace_def)
  have a: "scan_s (''Tgid:'' @ CHR 0x09 # decimal_nat n @ [CHR 0x0A]) = Some ''Tgid:''"
    by (rule scan_s_key [OF k])
  have b: "scan_skip_d (''Tgid:'' @ CHR 0x09 # decimal_nat n @ [CHR 0x0A]) =
             Some (store_int (strtoimax_sat (int n)))"
    by (rule scan_skip_d_decimal [OF k(1,2)])
  show ?case
    unfolding append_Nil is_process_loop.simps a b
    by (simp add: stored_tgid [OF assms(2,3)])
next
  case (Cons l pre)
  then have w: "first_word l \<noteq> []" "first_word l \<noteq> ''Tgid:''" by simp_all
  have "scan_s l = Some (first_word l)" by (rule scan_s_first_word [OF w(1)])
  with w(2) Cons show ?case by simp
qed

lemma is_process_loop_no_tgid:
  assumes "\<forall>l\<in>set lines. first_word l \<noteq> [] \<and> first_word l \<noteq> ''Tgid:''"
  shows "\<not> is_process_loop pid key tgid lines"
  using assms
proof (induction lines arbitrary: key)
  case Nil
  show ?case by simp
next
  case (Cons l lines)
  then have w: "first_word l \<noteq> []" "first_word l \<noteq> ''Tgid:''" by simp_all
  have "scan_s l = Some (first_word l)" by (rule scan_s_first_word [OF w(1)])
  with w(2) Cons show ?case by simp
qed

lemma char_ofI: "of_char c = (n::nat) \<Longrightarrow> char_of n = c"
  by auto

lemma digit_chars:
  "char_of (48::nat) = CHR ''0''" "char_of (49::nat) = CHR ''1''" "char_of (50::nat) = CHR ''2''"
  "char_of (51::nat) = CHR ''3''" "char_of (52::nat) = CHR ''4''" "char_of (53::nat) = CHR ''5''"
  "char_of (54::nat) = CHR ''6''" "char_of (55::nat) = CHR ''7''" "char_of (56::nat) = CHR ''8''"
  "char_of (57::nat) = CHR ''9''"
  by (rule char_ofI, simp)+

text \<open>
  Claim C7. On a signal-delivery-stop with \<open>SIGSTOP\<close> of a pid within \<open>1\<close> to
  \<open>PID_MAX\<close>, the turn of the loop sets the options trace-clone, trace-exec and
  trace-exit and resumes the pid (leaving its bit set) if and only if its bit was set
  already or \<open>is_process\<close> holds; otherwise it detaches the pid, with its bit clear.
  What \<open>is_process\<close> holds of is said on the status file itself. A pid whose bit is set
  is resumed. For a pid whose bit is clear: when the status file cannot be opened, the pid
  is detached; when the first line of the file that begins with the word \<open>Tgid:\<close> is
  \<open>Tgid:\<close>, a tab, the decimal number \<open>n\<close> and a newline (the lines before it begin with
  other words), the pid is resumed if \<open>n\<close>, as read into the \<open>int tgid\<close>, equals the
  pid, and detached if it does not, which is the case of a thread; and when no line
  begins with \<open>Tgid:\<close>, the pid is detached. (The number read into the \<open>int\<close> is \<open>n\<close>
  for every \<open>n\<close> that an \<open>int\<close> holds; in general it equals the pid when \<open>n\<close> is
  below \<open>2 ^ 63\<close> and congruent to the pid modulo \<open>2 ^ 32\<close>.)
\<close>

theorem sigstop_handled:
  assumes "1 \<le> pid" and "pid \<le> int PID_MAX" and "WIFSTOPPED status"
    and "WSTOPSIG status = SIGSTOP"
  shows "\<exists>s'. proc_monitor_iter e pid status errno s = Inr s' \<and>
           (if nat pid - 1 \<in> attaches s \<or>
               (case sys_read_status e (Suc (clock s)) pid of
                  None \<Rightarrow> False
                | Some lines \<Rightarrow> is_process_loop pid (uninit_key e) (uninit_tgid e) lines)
            then trace s' = trace s @ [PtraceSetOptions pid {TRACECLONE, TRACEEXEC, TRACEEXIT},
                                       PtraceCont pid 0] \<and>
                 nat pid - 1 \<in> attaches s'
            else trace s' = trace s @ [PtraceDetach pid 0] \<and> nat pid - 1 \<notin> attaches s') \<and>
           (nat pid - 1 \<in> attaches s \<longrightarrow>
              trace s' = trace s @ [PtraceSetOptions pid {TRACECLONE, TRACEEXEC, TRACEEXIT},
                                    PtraceCont pid 0]) \<and>
           (nat pid - 1 \<notin> attaches s \<and> sys_read_status e (Suc (clock s)) pid = None \<longrightarrow>
              trace s' = trace s @ [PtraceDetach pid 0] \<and> nat pid - 1 \<notin> attaches s') \<and>
           (\<forall>pre n rest.
              nat pid - 1 \<notin> attaches s \<and>
              sys_read_status e (Suc (clock s)) pid =
                Some (pre @ (''Tgid:'' @ CHR 0x09 # decimal_nat n @ [CHR 0x0A]) # rest) \<and>
              (\<forall>l\<in>set pre. first_word l \<noteq> [] \<and> first_word l \<noteq> ''Tgid:'') \<longrightarrow>
              (if n < 2 ^ 63 \<and> int n mod 2 ^ 32 = pid
               then trace s' = trace s @ [PtraceSetOptions pid {TRACECLONE, TRACEEXEC, TRACEEXIT},
                                          PtraceCont pid 0] \<and>
                    nat pid - 1 \<in> attaches s'
               else trace s' = trace s @ [PtraceDetach pid 0] \<and> nat pid - 1 \<notin> attaches s')) \<and>
           (\<forall>lines.
              nat pid - 1 \<notin> attaches s \<and> sys_read_status e (Suc (clock s)) pid = Some lines \<and>
              (\<forall>l\<in>set lines. first_word l \<noteq> [] \<and> first_word l \<noteq> ''Tgid:'') \<longrightarrow>
              trace s' = trace s @ [PtraceDetach pid 0] \<and> nat pid - 1 \<notin> attaches s')"
proof -
  let ?s2 = "(tick (s\<lparr>sigmask := sigmask s - {SIGTERMTHRD, SIGIO, SIGALRM}\<rparr>))
               \<lparr>sigmask := orig_mask s\<rparr>"
  let ?isp = "case sys_read_status e (Suc (clock s)) pid of
                None \<Rightarrow> False
              | Some lines \<Rightarrow> is_process_loop pid (uninit_key e) (uninit_tgid e) lines"
  have ne: "SIGSTOP \<noteq> SIGTRAP" by (simp add: SIGSTOP_def SIGTRAP_def)
  have iter: "proc_monitor_iter e pid status errno s = on_sigstop e pid ?s2"
    using assms ne by (simp add: proc_monitor_iter_def Let_def tick_def)
  have p: "0 \<le> pid" "pid < 2 ^ 31" using assms(1,2) by (simp_all add: PID_MAX_def)
  have f1: "sys_read_status e (Suc (clock s)) pid = None \<Longrightarrow> \<not> ?isp" by simp
  have f2: "?isp = (n < 2 ^ 63 \<and> int n mod 2 ^ 32 = pid)"
    if "sys_read_status e (Suc (clock s)) pid =
          Some (pre @ (''Tgid:'' @ CHR 0x09 # decimal_nat n @ [CHR 0x0A]) # rest)"
      and "\<forall>l\<in>set pre. first_word l \<noteq> [] \<and> first_word l \<noteq> ''Tgid:''"
    for pre n rest
    unfolding that(1) option.case by (rule is_process_loop_status [OF that(2) p])
  have f3: "\<not> ?isp"
    if "sys_read_status e (Suc (clock s)) pid = Some lines"
      and "\<forall>l\<in>set lines. first_word l \<noteq> [] \<and> first_word l \<noteq> ''Tgid:''"
    for lines
    unfolding that(1) option.case by (rule is_process_loop_no_tgid [OF that(2)])
  have main: "\<exists>s'. proc_monitor_iter e pid status errno s = Inr s' \<and>
           (if nat pid - 1 \<in> attaches s \<or> ?isp
            then trace s' = trace s @ [PtraceSetOptions pid {TRACECLONE, TRACEEXEC, TRACEEXIT},
                                       PtraceCont pid 0] \<and>
                 nat pid - 1 \<in> attaches s'
            else trace s' = trace s @ [PtraceDetach pid 0] \<and> nat pid - 1 \<notin> attaches s')"
    unfolding iter on_sigstop_result [OF assms(1,2)]
    by (simp add: is_process_eq tick_def emit_def)
  then obtain s' where s': "proc_monitor_iter e pid status errno s = Inr s'"
    and g: "if nat pid - 1 \<in> attaches s \<or> ?isp
            then trace s' = trace s @ [PtraceSetOptions pid {TRACECLONE, TRACEEXEC, TRACEEXIT},
                                       PtraceCont pid 0] \<and>
                 nat pid - 1 \<in> attaches s'
            else trace s' = trace s @ [PtraceDetach pid 0] \<and> nat pid - 1 \<notin> attaches s'"
    by blast
  have c1: "nat pid - 1 \<in> attaches s \<longrightarrow>
              trace s' = trace s @ [PtraceSetOptions pid {TRACECLONE, TRACEEXEC, TRACEEXIT},
                                    PtraceCont pid 0]"
    using g by (auto split: if_splits)
  have c2: "nat pid - 1 \<notin> attaches s \<and> sys_read_status e (Suc (clock s)) pid = None \<longrightarrow>
              trace s' = trace s @ [PtraceDetach pid 0] \<and> nat pid - 1 \<notin> attaches s'"
    using g f1 by (auto split: if_splits)
  have c3: "\<forall>pre n rest.
              nat pid - 1 \<notin> attaches s \<and>
              sys_read_status e (Suc (clock s)) pid =
                Some (pre @ (''Tgid:'' @ CHR 0x09 # decimal_nat n @ [CHR 0x0A]) # rest) \<and>
              (\<forall>l\<in>set pre. first_word l \<noteq> [] \<and> first_word l \<noteq> ''Tgid:'') \<longrightarrow>
              (if n < 2 ^ 63 \<and> int n mod 2 ^ 32 = pid
               then trace s' = trace s @ [PtraceSetOptions pid {TRACECLONE, TRACEEXEC, TRACEEXIT},
                                          PtraceCont pid 0] \<and>
                    nat pid - 1 \<in> attaches s'
               else trace s' = trace s @ [PtraceDetach pid 0] \<and> nat pid - 1 \<notin> attaches s')"
  proof (intro allI impI, elim conjE)
    fix pre n rest
    assume a: "nat pid - 1 \<notin> attaches s"
      and b: "sys_read_status e (Suc (clock s)) pid =
                Some (pre @ (''Tgid:'' @ CHR 0x09 # decimal_nat n @ [CHR 0x0A]) # rest)"
      and c: "\<forall>l\<in>set pre. first_word l \<noteq> [] \<and> first_word l \<noteq> ''Tgid:''"
    from g a have "if ?isp
            then trace s' = trace s @ [PtraceSetOptions pid {TRACECLONE, TRACEEXEC, TRACEEXIT},
                                       PtraceCont pid 0] \<and>
                 nat pid - 1 \<in> attaches s'
            else trace s' = trace s @ [PtraceDetach pid 0] \<and> nat pid - 1 \<notin> attaches s'"
      by (auto split: if_splits)
    then show "if n < 2 ^ 63 \<and> int n mod 2 ^ 32 = pid
               then trace s' = trace s @ [PtraceSetOptions pid {TRACECLONE, TRACEEXEC, TRACEEXIT},
                                          PtraceCont pid 0] \<and>
                    nat pid - 1 \<in> attaches s'
               else trace s' = trace s @ [PtraceDetach pid 0] \<and> nat pid - 1 \<notin> attaches s'"
      unfolding f2 [OF b c] .
  qed
  have c4: "\<forall>lines.
              nat pid - 1 \<notin> attaches s \<and> sys_read_status e (Suc (clock s)) pid = Some lines \<and>
              (\<forall>l\<in>set lines. first_word l \<noteq> [] \<and> first_word l \<noteq> ''Tgid:'') \<longrightarrow>
              trace s' = trace s @ [PtraceDetach pid 0] \<and> nat pid - 1 \<notin> attaches s'"
  proof (intro allI impI, elim conjE)
    fix lines
    assume a: "nat pid - 1 \<notin> attaches s"
      and b: "sys_read_status e (Suc (clock s)) pid = Some lines"
      and c: "\<forall>l\<in>set lines. first_word l \<noteq> [] \<and> first_word l \<noteq> ''Tgid:''"
    from g a f3 [OF b c]
    show "trace s' = trace s @ [PtraceDetach pid 0] \<and> nat pid - 1 \<notin> attaches s'"
      by (auto split: if_splits)
  qed
  from s' g c1 c2 c3 c4 show ?thesis by blast
qed

text \<open>
  The child 1100 stops with \<open>SIGSTOP\<close>: as a process whose status file says
  \<open>Tgid: 1100\<close>; when its status file cannot be opened; as a thread of the process 1000;
  and with a \<open>Tgid:\<close> line that carries 4294968396, which an \<open>int\<close> holds as 1100.
\<close>

theorem sigstop_handled_witness:
  "(1::int) \<le> 1100 \<and> 1100 \<le> int PID_MAX \<and> WIFSTOPPED (stop_status 0 SIGSTOP) \<and>
   WSTOPSIG (stop_status 0 SIGSTOP) = SIGSTOP \<and>
   (\<exists>s'. proc_monitor_iter target_env 1100 (stop_status 0 SIGSTOP) 0 forked_state = Inr s' \<and>
      trace s' = [PtraceSetOptions 1100 {TRACECLONE, TRACEEXEC, TRACEEXIT}, PtraceCont 1100 0] \<and>
      1099 \<in> attaches s') \<and>
   (\<exists>s'. proc_monitor_iter gone_env 1100 (stop_status 0 SIGSTOP) 0 forked_state = Inr s' \<and>
      trace s' = [PtraceDetach 1100 0] \<and> 1099 \<notin> attaches s') \<and>
   (\<exists>s'. proc_monitor_iter thread_env 1100 (stop_status 0 SIGSTOP) 0 forked_state = Inr s' \<and>
      trace s' = [PtraceDetach 1100 0] \<and> 1099 \<notin> attaches s') \<and>
   (\<exists>s'. proc_monitor_iter wide_env 1100 (stop_status 0 SIGSTOP) 0 forked_state = Inr s' \<and>
      trace s' = [PtraceSetOptions 1100 {TRACECLONE, TRACEEXEC, TRACEEXIT}, PtraceCont 1100 0] \<and>
      1099 \<in> attaches s')"
proof -
  have h: "(1::int) \<le> 1100" "1100 \<le> int PID_MAX" "WIFSTOPPED (stop_status 0 SIGSTOP)"
    "WSTOPSIG (stop_status 0 SIGSTOP) = SIGSTOP"
    by (simp_all add: PID_MAX_def WIFSTOPPED_def WSTOPSIG_def stop_status_def SIGSTOP_def)
  have f: "nat 1100 - 1 \<notin> attaches forked_state" "trace forked_state = []"
    "clock forked_state = 0"
    by (simp_all add: forked_state_def boot_state_def)
  have nine: "nat 1100 - 1 = 1099" by simp
  have w: "\<forall>l\<in>set [''Name:'' @ [CHR 0x09] @ ''main'' @ [CHR 0x0A]].
             first_word l \<noteq> [] \<and> first_word l \<noteq> ''Tgid:''"
    "\<forall>l\<in>set [''Name:'' @ [CHR 0x09] @ ''Binder:1000_1'' @ [CHR 0x0A],
               ''Umask:'' @ [CHR 0x09] @ ''0077'' @ [CHR 0x0A],
               ''State:'' @ [CHR 0x09] @ ''S (sleeping)'' @ [CHR 0x0A]].
             first_word l \<noteq> [] \<and> first_word l \<noteq> ''Tgid:''"
    "\<forall>l\<in>set ([] :: string list). first_word l \<noteq> [] \<and> first_word l \<noteq> ''Tgid:''"
    by (simp_all add: first_word_def isspace_def)
  have d: "decimal_nat 1100 = ''1100''" "decimal_nat 1000 = ''1000''"
    "decimal_nat 4294968396 = ''4294968396''"
    by (simp_all add: decimal_nat.simps digit_chars)
  have r: "sys_read_status target_env (Suc (clock forked_state)) 1100 =
             Some ([''Name:'' @ [CHR 0x09] @ ''main'' @ [CHR 0x0A]] @
                   (''Tgid:'' @ CHR 0x09 # decimal_nat 1100 @ [CHR 0x0A]) # [])"
    "sys_read_status gone_env (Suc (clock forked_state)) 1100 = None"
    "sys_read_status thread_env (Suc (clock forked_state)) 1100 =
             Some ([''Name:'' @ [CHR 0x09] @ ''Binder:1000_1'' @ [CHR 0x0A],
                    ''Umask:'' @ [CHR 0x09] @ ''0077'' @ [CHR 0x0A],
                    ''State:'' @ [CHR 0x09] @ ''S (sleeping)'' @ [CHR 0x0A]] @
                   (''Tgid:'' @ CHR 0x09 # decimal_nat 1000 @ [CHR 0x0A]) # [])"
    "sys_read_status wide_env (Suc (clock forked_state)) 1100 =
             Some ([] @ (''Tgid:'' @ CHR 0x09 # decimal_nat 4294968396 @ [CHR 0x0A]) # [])"
    unfolding d by (simp_all add: target_env_def gone_env_def thread_env_def wide_env_def)
  have n: "(1100::nat) < 2 ^ 63 \<and> int 1100 mod 2 ^ 32 = 1100"
    "\<not> ((1000::nat) < 2 ^ 63 \<and> int 1000 mod 2 ^ 32 = 1100)"
    "(4294968396::nat) < 2 ^ 63 \<and> int 4294968396 mod 2 ^ 32 = 1100"
    by simp_all
  from sigstop_handled [OF h, of target_env 0 forked_state]
  obtain s1 where s1: "proc_monitor_iter target_env 1100 (stop_status 0 SIGSTOP) 0 forked_state = Inr s1"
    and c1: "\<And>pre n rest.
              nat 1100 - 1 \<notin> attaches forked_state \<Longrightarrow>
              sys_read_status target_env (Suc (clock forked_state)) 1100 =
                Some (pre @ (''Tgid:'' @ CHR 0x09 # decimal_nat n @ [CHR 0x0A]) # rest) \<Longrightarrow>
              (\<forall>l\<in>set pre. first_word l \<noteq> [] \<and> first_word l \<noteq> ''Tgid:'') \<Longrightarrow>
              (if n < 2 ^ 63 \<and> int n mod 2 ^ 32 = 1100
               then trace s1 = trace forked_state @
                      [PtraceSetOptions 1100 {TRACECLONE, TRACEEXEC, TRACEEXIT}, PtraceCont 1100 0] \<and>
                    nat 1100 - 1 \<in> attaches s1
               else trace s1 = trace forked_state @ [PtraceDetach 1100 0] \<and>
                    nat 1100 - 1 \<notin> attaches s1)"
    by blast
  from c1 [OF f(1) r(1) w(1)] n(1)
  have a: "trace s1 = [PtraceSetOptions 1100 {TRACECLONE, TRACEEXEC, TRACEEXIT}, PtraceCont 1100 0] \<and>
           1099 \<in> attaches s1"
    unfolding f(2) by simp
  from sigstop_handled [OF h, of gone_env 0 forked_state]
  obtain s2 where s2: "proc_monitor_iter gone_env 1100 (stop_status 0 SIGSTOP) 0 forked_state = Inr s2"
    and c2: "nat 1100 - 1 \<notin> attaches forked_state \<and>
             sys_read_status gone_env (Suc (clock forked_state)) 1100 = None \<longrightarrow>
             trace s2 = trace forked_state @ [PtraceDetach 1100 0] \<and> nat 1100 - 1 \<notin> attaches s2"
    by blast
  from c2 f(1) r(2)
  have b: "trace s2 = [PtraceDetach 1100 0] \<and> 1099 \<notin> attaches s2"
    unfolding f(2) by simp
  from sigstop_handled [OF h, of thread_env 0 forked_state]
  obtain s3 where s3: "proc_monitor_iter thread_env 1100 (stop_status 0 SIGSTOP) 0 forked_state = Inr s3"
    and c3: "\<And>pre n rest.
              nat 1100 - 1 \<notin> attaches forked_state \<Longrightarrow>
              sys_read_status thread_env (Suc (clock forked_state)) 1100 =
                Some (pre @ (''Tgid:'' @ CHR 0x09 # decimal_nat n @ [CHR 0x0A]) # rest) \<Longrightarrow>
              (\<forall>l\<in>set pre. first_word l \<noteq> [] \<and> first_word l \<noteq> ''Tgid:'') \<Longrightarrow>
              (if n < 2 ^ 63 \<and> int n mod 2 ^ 32 = 1100
               then trace s3 = trace forked_state @
                      [PtraceSetOptions 1100 {TRACECLONE, TRACEEXEC, TRACEEXIT}, PtraceCont 1100 0] \<and>
                    nat 1100 - 1 \<in> attaches s3
               else trace s3 = trace forked_state @ [PtraceDetach 1100 0] \<and>
                    nat 1100 - 1 \<notin> attaches s3)"
    by blast
  from c3 [OF f(1) r(3) w(2)] n(2)
  have c: "trace s3 = [PtraceDetach 1100 0] \<and> 1099 \<notin> attaches s3"
    unfolding f(2) by simp
  from sigstop_handled [OF h, of wide_env 0 forked_state]
  obtain s4 where s4: "proc_monitor_iter wide_env 1100 (stop_status 0 SIGSTOP) 0 forked_state = Inr s4"
    and c4: "\<And>pre n rest.
              nat 1100 - 1 \<notin> attaches forked_state \<Longrightarrow>
              sys_read_status wide_env (Suc (clock forked_state)) 1100 =
                Some (pre @ (''Tgid:'' @ CHR 0x09 # decimal_nat n @ [CHR 0x0A]) # rest) \<Longrightarrow>
              (\<forall>l\<in>set pre. first_word l \<noteq> [] \<and> first_word l \<noteq> ''Tgid:'') \<Longrightarrow>
              (if n < 2 ^ 63 \<and> int n mod 2 ^ 32 = 1100
               then trace s4 = trace forked_state @
                      [PtraceSetOptions 1100 {TRACECLONE, TRACEEXEC, TRACEEXIT}, PtraceCont 1100 0] \<and>
                    nat 1100 - 1 \<in> attaches s4
               else trace s4 = trace forked_state @ [PtraceDetach 1100 0] \<and>
                    nat 1100 - 1 \<notin> attaches s4)"
    by blast
  from c4 [OF f(1) r(4) w(3)] n(3)
  have d4: "trace s4 = [PtraceSetOptions 1100 {TRACECLONE, TRACEEXEC, TRACEEXIT}, PtraceCont 1100 0] \<and>
           1099 \<in> attaches s4"
    unfolding f(2) by simp
  from h s1 a s2 b s3 c s4 d4 show ?thesis by blast
qed

subsection \<open>The termination handler\<close>

text \<open>
  Claim C9. \<open>term_thread\<close> twice is \<open>term_thread\<close> once, and after it the registry is
  empty, the bitmap is clear, \<open>inotify_fd\<close> is \<open>-1\<close>, the descriptor it held is closed,
  and the three signals have their default handlers.
\<close>

theorem term_thread_idempotent:
  "term_thread (term_thread s) = term_thread s \<and>
   zygote_map (term_thread s) = [] \<and>
   attaches (term_thread s) = {} \<and>
   inotify_fd (term_thread s) = - 1 \<and>
   (0 \<le> inotify_fd s \<longrightarrow> inotify_fd s \<notin> open_fds (term_thread s)) \<and>
   handlers (term_thread s) SIGTERMTHRD = SIG_DFL \<and>
   handlers (term_thread s) SIGIO = SIG_DFL \<and>
   handlers (term_thread s) SIGALRM = SIG_DFL"
  by (simp add: term_thread_def sys_close_def pid_set_reset_def)

text \<open>The handler on a state that holds the open inotify descriptor 7.\<close>

theorem term_thread_idempotent_witness:
  "0 \<le> inotify_fd (boot_state\<lparr>inotify_fd := 7, open_fds := {7}\<rparr>) \<and>
   open_fds (term_thread (boot_state\<lparr>inotify_fd := 7, open_fds := {7}\<rparr>)) = {} \<and>
   term_thread (term_thread (boot_state\<lparr>inotify_fd := 7, open_fds := {7}\<rparr>)) =
     term_thread (boot_state\<lparr>inotify_fd := 7, open_fds := {7}\<rparr>)"
proof -
  have h: "0 \<le> inotify_fd (boot_state\<lparr>inotify_fd := 7, open_fds := {7}\<rparr>)"
    by simp
  have "open_fds (term_thread (boot_state\<lparr>inotify_fd := 7, open_fds := {7}\<rparr>)) = {}"
    by (simp add: term_thread_def sys_close_def boot_state_def)
  with term_thread_idempotent [of "boot_state\<lparr>inotify_fd := 7, open_fds := {7}\<rparr>"] h
  show ?thesis by blast
qed

subsection \<open>The bitmap and pid 0\<close>

lemma proc_monitor_iter_returns:
  assumes "1 \<le> pid" and "pid \<le> int PID_MAX"
    and "1 \<le> sys_geteventmsg e (Suc (clock s)) pid"
    and "sys_geteventmsg e (Suc (clock s)) pid \<le> PID_MAX"
  shows "\<exists>s'. proc_monitor_iter e pid status errno s = Inr s'"
proof -
  let ?m = "sys_geteventmsg e (Suc (clock s)) pid"
  have m: "?m mod 2 ^ size_t_bits (lp64 e) = ?m"
    using assms(4) by (simp add: PID_MAX_def size_t_bits_def)
  have idx: "pid_set_index (lp64 e) ?m = ?m - 1"
    using index_of_msg [OF assms(3,4), of "lp64 e"] m by simp
  have rng: "?m - 1 < PID_MAX" using assms(3,4) by simp
  have c: "(1::int) \<le> int ?m" "int ?m \<le> int PID_MAX"
    using assms(3,4) by simp_all
  show ?thesis
    using rng
    by (simp add: proc_monitor_iter_def on_ptrace_event_def Let_def tick_def emit_def m idx
          pid_set_put_def to_int_small [OF assms(4)] detach_pid_in_range [OF assms(1,2)]
          detach_pid_in_range [OF c] on_sigstop_result [OF assms(1,2)])
qed

text \<open>
  Claim C10. For every \<open>size_t\<close> value \<open>pos\<close>, \<open>operator[]\<close> is within the bitset
  exactly when \<open>1 \<le> pos \<le> PID_MAX\<close>, and then its bit is \<open>pos - 1\<close>; at \<open>pos = 0\<close> the
  index wraps to the largest \<open>size_t\<close> and both the read and the write are out of range.
  The worker returns at once, touching nothing, when the pending-fork slot holds 0. The
  main loop passes the bitmap only what \<open>waitpid\<close> and the event message give it: with
  both within \<open>1\<close> to \<open>PID_MAX\<close> no turn of the loop is out of range.
\<close>

theorem pid_set_index_bounds:
  "(\<forall>pos. pos < 2 ^ size_t_bits lp \<longrightarrow>
       (pid_set_index lp pos < PID_MAX \<longleftrightarrow> 1 \<le> pos \<and> pos \<le> PID_MAX) \<and>
       (1 \<le> pos \<longrightarrow> pid_set_index lp pos = pos - 1)) \<and>
   pid_set_index lp 0 = 2 ^ size_t_bits lp - 1 \<and>
   pid_set_get lp a 0 = Inl BitsetOutOfRange \<and>
   pid_set_put lp a 0 b = Inl BitsetOutOfRange \<and>
   (fork_pid s = 0 \<longrightarrow> do_check_fork e s = Inr s) \<and>
   (\<forall>pid status errno.
       1 \<le> pid \<and> pid \<le> int PID_MAX \<and>
       1 \<le> sys_geteventmsg e (Suc (clock s)) pid \<and>
       sys_geteventmsg e (Suc (clock s)) pid \<le> PID_MAX \<longrightarrow>
       (\<exists>s'. proc_monitor_iter e pid status errno s = Inr s'))"
proof -
  have idx: "pid_set_index lp pos = pos - 1" if "1 \<le> pos" "pos < 2 ^ size_t_bits lp" for pos
  proof -
    from that obtain q where q: "pos = Suc q" by (cases pos) auto
    with that have "q < 2 ^ size_t_bits lp" by simp
    then have "(Suc q + 2 ^ size_t_bits lp - 1) mod 2 ^ size_t_bits lp = q" by simp
    with q show ?thesis by (simp add: pid_set_index_def)
  qed
  have zero: "pid_set_index lp 0 = 2 ^ size_t_bits lp - 1"
    by (simp add: pid_set_index_def)
  have big: "PID_MAX \<le> 2 ^ size_t_bits lp - 1"
    by (simp add: PID_MAX_def size_t_bits_def)
  have a: "(pid_set_index lp pos < PID_MAX \<longleftrightarrow> 1 \<le> pos \<and> pos \<le> PID_MAX) \<and>
       (1 \<le> pos \<longrightarrow> pid_set_index lp pos = pos - 1)" if "pos < 2 ^ size_t_bits lp" for pos
  proof (cases "pos = 0")
    case True
    with zero big show ?thesis by simp
  next
    case False
    then have "pid_set_index lp pos = pos - 1" using idx that by simp
    with False show ?thesis by auto
  qed
  have oob: "\<not> pid_set_index lp 0 < PID_MAX"
    using zero big by simp
  have g: "fork_pid s = 0 \<longrightarrow> do_check_fork e s = Inr s"
    by (simp add: do_check_fork_def Let_def)
  show ?thesis
    using a zero oob g proc_monitor_iter_returns [of _ e s]
    by (simp add: pid_set_get_def pid_set_put_def Let_def)
qed

text \<open>The bounds on a 32-bit system, and the worker on the empty slot.\<close>

theorem pid_set_index_bounds_witness:
  "(1::nat) < 2 ^ size_t_bits False \<and> pid_set_index False 1 = 0 \<and>
   (32768::nat) < 2 ^ size_t_bits False \<and> pid_set_index False 32768 = 32767 \<and>
   (32769::nat) < 2 ^ size_t_bits False \<and> \<not> pid_set_index False 32769 < PID_MAX \<and>
   pid_set_index False 0 = 4294967295 \<and>
   fork_pid boot_state = 0 \<and> do_check_fork target_env boot_state = Inr boot_state"
proof -
  have h: "(1::nat) < 2 ^ size_t_bits False" "(32768::nat) < 2 ^ size_t_bits False"
    "(32769::nat) < 2 ^ size_t_bits False" "fork_pid boot_state = 0"
    by (simp_all add: size_t_bits_def boot_state_def)
  note t = pid_set_index_bounds [of False "{}" True boot_state target_env]
  from t h(1) have a: "pid_set_index False 1 = 0" by auto
  from t h(2) have b: "pid_set_index False 32768 = 32767" by auto
  from t h(3) have c: "\<not> pid_set_index False 32769 < PID_MAX" by (auto simp: PID_MAX_def)
  from t have d: "pid_set_index False 0 = 4294967295" by (simp add: size_t_bits_def)
  from t h(4) have e: "do_check_fork target_env boot_state = Inr boot_state" by blast
  from h a b c d e show ?thesis by blast
qed

subsection \<open>The timer and the size of the registry\<close>

text \<open>
  Only \<open>check_zygote\<close> and the start of \<open>proc_monitor\<close> set the timer; a turn of the
  loop and a worker leave it alone, and never add to the registry.
\<close>

lemma detach_pid_registry:
  "detach_pid e pid sig s = Inr s' \<Longrightarrow> zygote_map s' = zygote_map s \<and> itimer s' = itimer s"
  by (auto simp: detach_pid_def emit_def split: sum.splits)

lemma on_sigstop_registry:
  "on_sigstop e pid s = Inr s' \<Longrightarrow> zygote_map s' = zygote_map s \<and> itimer s' = itimer s"
  by (auto simp: on_sigstop_def is_process_eq tick_def emit_def
        dest!: detach_pid_registry split: sum.splits if_splits)

lemma on_ptrace_event_registry:
  assumes "on_ptrace_event e pid event s = Inr s'"
  shows "itimer s' = itimer s \<and>
         (zygote_map s' = zygote_map s \<or> zygote_map s' = map_erase (zygote_map s) pid)"
  using assms
  by (auto simp: on_ptrace_event_def Let_def tick_def emit_def
        dest!: detach_pid_registry split: sum.splits if_splits)

lemma map_size_erase: "map_size (map_erase m k) \<le> map_size m"
  by (simp add: map_size_def map_erase_def)

lemma proc_monitor_iter_registry:
  assumes "proc_monitor_iter e pid status errno s = Inr s'"
  shows "itimer s' = itimer s \<and> map_size (zygote_map s') \<le> map_size (zygote_map s)"
proof -
  let ?s1 = "tick (s\<lparr>sigmask := sigmask s - {SIGTERMTHRD, SIGIO, SIGALRM}\<rparr>)"
  let ?s2 = "?s1\<lparr>sigmask := orig_mask ?s1\<rparr>"
  have f: "zygote_map ?s2 = zygote_map s" "itimer ?s2 = itimer s"
    "zygote_map ?s1 = zygote_map s" "itimer ?s1 = itimer s"
    by (simp_all add: tick_def)
  show ?thesis
  proof (cases "pid < 0")
    case True
    with assms have "s' = (if errno = ECHILD then tick (emit Nanosleep ?s1) else ?s1)"
      by (simp add: proc_monitor_iter_def Let_def)
    then show ?thesis by (simp add: tick_def emit_def)
  next
    case nonneg: False
    show ?thesis
    proof (cases "WIFSTOPPED status")
      case False
      with nonneg assms have "detach_pid e pid 0 ?s2 = Inr s'"
        by (simp add: proc_monitor_iter_def Let_def)
      from detach_pid_registry [OF this] f show ?thesis by simp
    next
      case stopped: True
      show ?thesis
      proof (cases "WSTOPSIG status = SIGTRAP \<and> WEVENT e status \<noteq> 0")
        case True
        with nonneg stopped assms
        have "on_ptrace_event e pid (WEVENT e status) ?s2 = Inr s'"
          by (simp add: proc_monitor_iter_def Let_def)
        from on_ptrace_event_registry [OF this] f map_size_erase [of "zygote_map s" pid]
        show ?thesis by auto
      next
        case noevent: False
        show ?thesis
        proof (cases "WSTOPSIG status = SIGSTOP")
          case True
          with nonneg stopped noevent assms have "on_sigstop e pid ?s2 = Inr s'"
            by (simp add: proc_monitor_iter_def Let_def SIGSTOP_def SIGTRAP_def)
          from on_sigstop_registry [OF this] f show ?thesis by simp
        next
          case False
          with nonneg stopped noevent assms
          have "s' = emit (PtraceCont pid (WSTOPSIG status)) ?s2"
            by (auto simp: proc_monitor_iter_def Let_def)
          then show ?thesis by (simp add: tick_def emit_def)
        qed
      qed
    qed
  qed
qed

lemma do_check_fork_registry:
  assumes "do_check_fork e s = Inr s'"
  shows "itimer s' = itimer s \<and> zygote_map s' = zygote_map s"
proof (cases "fork_pid s = 0")
  case True
  with assms show ?thesis by (auto simp: do_check_fork_def Let_def)
next
  case False
  with assms obtain s2 where d: "detach_pid e (fork_pid s) 0 (s\<lparr>fork_pid := 0\<rparr>) = Inr s2"
    and s': "s' = do_check_fork_loop e (fork_pid s) 0 s2"
    by (auto simp: do_check_fork_def Let_def split: sum.splits)
  obtain k us vs where "do_check_fork_loop e (fork_pid s) 0 s2 = adv k (us @ vs) s2"
    using do_check_fork_loop_adv by blast
  with s' detach_pid_registry [OF d] show ?thesis by simp
qed

lemma check_zygote_disarms:
  "is_zygote_done lp (check_zygote e s) \<Longrightarrow> lp = lp64 e \<Longrightarrow> itimer (check_zygote e s) = 0"
  by (auto simp: check_zygote_def Let_def is_zygote_done_def split: if_splits)

lemma timer_inv_shrink:
  assumes "timer_inv lp s" and "itimer s' = itimer s"
    and "map_size (zygote_map s') \<le> map_size (zygote_map s)"
  shows "timer_inv lp s'"
  using assms by (auto simp: timer_inv_def is_zygote_done_def)

lemma timer_inv_check_zygote: "timer_inv (lp64 e) (check_zygote e s)"
  using check_zygote_disarms [of "lp64 e" e s] by (auto simp: timer_inv_def)

lemma timer_inv_deliver:
  assumes "timer_inv (lp64 e) s"
  shows "timer_inv (lp64 e) (deliver e g s)"
proof (cases "handlers s g")
  case SIG_DFL
  with assms show ?thesis by (auto simp: deliver_def timer_inv_def is_zygote_done_def)
next
  case SIG_IGN
  with assms show ?thesis by (simp add: deliver_def)
next
  case H_term_thread
  then show ?thesis
    by (simp add: deliver_def term_thread_def timer_inv_def is_zygote_done_def map_size_def)
next
  case H_inotify_event
  show ?thesis
  proof (cases "sys_poll_inotify e (clock s)")
    case None
    with H_inotify_event assms show ?thesis
      by (auto simp: deliver_def inotify_event_def tick_def timer_inv_def is_zygote_done_def)
  next
    case (Some a)
    with H_inotify_event show ?thesis
      by (cases a) (simp add: deliver_def inotify_event_def Let_def timer_inv_check_zygote)
  qed
next
  case H_check_zygote
  then show ?thesis by (simp add: deliver_def timer_inv_check_zygote)
qed

lemma timer_inv_step:
  assumes "timer_inv (lp64 e) s" and "monitor_step e inp s = Inr s'"
  shows "timer_inv (lp64 e) s'"
proof (cases inp)
  case (Signal g)
  with assms timer_inv_deliver [OF assms(1), of g] show ?thesis
    by (auto simp: monitor_step_def split: if_splits)
next
  case (Wait pid status errno)
  show ?thesis
  proof (cases "exited s")
    case True
    with Wait assms show ?thesis by (simp add: monitor_step_def)
  next
    case False
    with Wait assms have "proc_monitor_iter e pid status errno s = Inr s'"
      by (simp add: monitor_step_def)
    from proc_monitor_iter_registry [OF this] assms(1) show ?thesis
      by (auto intro: timer_inv_shrink)
  qed
next
  case Worker
  with assms have "do_check_fork e s = Inr s'" by (simp add: monitor_step_def)
  from do_check_fork_registry [OF this] assms(1) show ?thesis
    by (auto intro: timer_inv_shrink)
qed

lemma timer_inv_run:
  "timer_inv (lp64 e) s \<Longrightarrow> run e inps s = Inr s' \<Longrightarrow> timer_inv (lp64 e) s'"
proof (induction inps arbitrary: s)
  case Nil
  then show ?case by simp
next
  case (Cons inp inps)
  from Cons.prems(2) obtain s1 where s1: "monitor_step e inp s = Inr s1"
    and r: "run e inps s1 = Inr s'"
    by (auto split: sum.splits)
  from timer_inv_step [OF Cons.prems(1) s1] r show ?case
    by (rule Cons.IH)
qed

lemma proc_monitor_init_timer:
  "(itimer (proc_monitor_init e s0) \<noteq> 0) = (\<not> is_zygote_done (lp64 e) (proc_monitor_init e s0))"
proof -
  let ?s7 = "check_zygote e (setup_inotify e
     (s0\<lparr>orig_mask := sigmask s0,
          handlers := (handlers s0)(SIGTERMTHRD := H_term_thread, SIGIO := H_inotify_event,
                                   SIGALRM := H_check_zygote),
          sigmask := sigmask s0\<rparr>))"
  have eq: "proc_monitor_init e s0 =
      (if \<not> is_zygote_done (lp64 e) ?s7 then ?s7\<lparr>itimer := 250000\<rparr> else ?s7)"
    by (simp add: proc_monitor_init_def Let_def)
  have "is_zygote_done (lp64 e) ?s7 \<Longrightarrow> itimer ?s7 = 0"
    by (rule check_zygote_disarms) simp_all
  then show ?thesis
    unfolding eq by (auto simp: is_zygote_done_def)
qed

lemmas monitor_defs =
  proc_monitor_init_def setup_inotify_def check_zygote_def crawl_procfs_def check_zygote_pid_def
  parse_ppid_def new_zygote_def read_ns_def map_find_def map_count_def map_erase_def map_size_def
  is_zygote_done_def monitor_step_def proc_monitor_iter_def on_ptrace_event_def
  detach_pid_def pid_set_put_def pid_set_index_def to_size_t_def size_t_bits_def PID_MAX_def
  WIFSTOPPED_def WSTOPSIG_def stop_status_def SIGTRAP_def SIGSTOP_def
  PTRACE_EVENT_FORK_def PTRACE_EVENT_VFORK_def PTRACE_EVENT_EXIT_def
  fgets_def tick_def emit_def Let_def

text \<open>
  A scan never shrinks the registry and leaves the handlers alone; and a step that does
  not shrink the registry keeps the timer armed exactly while the registry is short.
\<close>

lemma grows_refl [simp]: "grows s s"
  by (simp add: grows_def)

lemma grows_trans: "grows s s1 \<Longrightarrow> grows s1 s2 \<Longrightarrow> grows s s2"
  by (auto simp: grows_def)

lemma length_map_assign_ge: "length m \<le> length (map_assign m k v)"
  by (induction m) auto

lemma new_zygote_grows: "grows s (new_zygote e pid s)"
  using length_map_assign_ge [of "zygote_map s" pid]
  by (auto simp: grows_def new_zygote_def read_ns_def tick_def emit_def map_size_def
        split: option.splits)

lemma check_zygote_pid_grows: "grows s (check_zygote_pid e pid s)"
proof (cases "sys_read_cmdline e (clock s) pid = OpenFail")
  case True
  then show ?thesis by (simp add: check_zygote_pid_def grows_def tick_def)
next
  case False
  let ?buf = "fgets 512 (sys_read_cmdline e (clock s) pid) (''/proc/'' @ decimal pid @ ''/cmdline'')"
  let ?s2 = "snd (parse_ppid e pid (tick s))"
  have p: "grows s ?s2"
    by (simp add: parse_ppid_def grows_def tick_def split: option.splits)
  from False have "check_zygote_pid e pid s = tick s \<or> check_zygote_pid e pid s = ?s2 \<or>
      check_zygote_pid e pid s = new_zygote e pid ?s2"
    by (auto simp: check_zygote_pid_def Let_def split: fread.splits prod.splits)
  moreover have "grows s (tick s)" by (simp add: grows_def tick_def)
  moreover have "grows s (new_zygote e pid ?s2)"
    using p new_zygote_grows by (rule grows_trans)
  ultimately show ?thesis using p by auto
qed

lemma fold_grows: "grows s (fold (check_zygote_pid e) pids s)"
proof (induction pids arbitrary: s)
  case Nil
  show ?case by simp
next
  case (Cons p pids)
  have "grows s (check_zygote_pid e p s)" by (rule check_zygote_pid_grows)
  then show ?case using Cons by (auto intro: grows_trans)
qed

lemma crawl_grows: "grows s (crawl_procfs e (check_zygote_pid e) s)"
proof -
  have "grows s (tick s)" by (simp add: grows_def tick_def)
  then show ?thesis
    unfolding crawl_procfs_def using fold_grows by (rule grows_trans)
qed

lemma check_zygote_registry:
  "handlers (check_zygote e s) = handlers s \<and>
   map_size (zygote_map s) \<le> map_size (zygote_map (check_zygote e s))"
  using crawl_grows [of s e] by (simp add: check_zygote_def Let_def grows_def)

lemma check_zygote_exact:
  assumes "timer_exact (lp64 e) s"
    and "map_size (zygote_map s) \<le> map_size (zygote_map (check_zygote e s))"
  shows "timer_exact (lp64 e) (check_zygote e s)"
proof -
  let ?s1 = "crawl_procfs e (check_zygote_pid e) s"
  have g: "itimer ?s1 = itimer s" using crawl_grows [of s e] by (simp add: grows_def)
  show ?thesis
  proof (cases "is_zygote_done (lp64 e) ?s1")
    case True
    then have "check_zygote e s = ?s1\<lparr>itimer := 0\<rparr>" by (simp add: check_zygote_def Let_def)
    moreover from True have "is_zygote_done (lp64 e) (?s1\<lparr>itimer := 0\<rparr>)"
      by (cases "lp64 e") (simp_all add: is_zygote_done_def)
    ultimately show ?thesis
      by (simp add: timer_exact_def)
  next
    case False
    then have eq: "check_zygote e s = ?s1" by (simp add: check_zygote_def Let_def)
    from assms(2) False have "\<not> is_zygote_done (lp64 e) s"
      unfolding eq by (cases "lp64 e") (simp_all add: is_zygote_done_def)
    with assms(1) have "itimer s \<noteq> 0" by (simp add: timer_exact_def)
    with False g show ?thesis unfolding eq by (simp add: timer_exact_def)
  qed
qed

lemma timer_exact_same:
  assumes "timer_exact lp s" and "itimer s' = itimer s"
    and "map_size (zygote_map s') = map_size (zygote_map s)"
  shows "timer_exact lp s'"
  using assms by (simp add: timer_exact_def is_zygote_done_def)

lemma inotify_event_cases:
  obtains (idle) "inotify_event e s = tick s"
    | (scan) s2 where "inotify_event e s = check_zygote e s2" "itimer s2 = itimer s"
        "zygote_map s2 = zygote_map s" "handlers s2 = handlers s"
proof (cases "sys_poll_inotify e (clock s)")
  case None
  then have "inotify_event e s = tick s" by (simp add: inotify_event_def)
  then show ?thesis by (rule idle)
next
  case (Some a)
  obtain evmask name where a: "a = (evmask, name)" by (cases a)
  show ?thesis
  proof (cases "IN_CLOSE_WRITE \<in> evmask \<and> name = ''packages.xml''")
    case True
    with Some a have "inotify_event e s = check_zygote e (emit UpdateUidMap (tick s))"
      by (simp add: inotify_event_def Let_def)
    then show ?thesis by (rule scan) (simp_all add: tick_def emit_def)
  next
    case False
    with Some a have "inotify_event e s = check_zygote e (tick s)"
      by (auto simp add: inotify_event_def Let_def)
    then show ?thesis by (rule scan) (simp_all add: tick_def)
  qed
qed

lemma inotify_event_exact:
  assumes "timer_exact (lp64 e) s"
    and "map_size (zygote_map s) \<le> map_size (zygote_map (inotify_event e s))"
  shows "timer_exact (lp64 e) (inotify_event e s)"
proof (cases rule: inotify_event_cases [of e s])
  case idle
  with assms(1) show ?thesis by (simp add: timer_exact_def is_zygote_done_def tick_def)
next
  case (scan s2)
  have "timer_exact (lp64 e) s2"
    using assms(1) scan(2,3) by (simp add: timer_exact_def is_zygote_done_def)
  moreover have "map_size (zygote_map s2) \<le> map_size (zygote_map (check_zygote e s2))"
    using assms(2) scan(1,3) by simp
  ultimately have "timer_exact (lp64 e) (check_zygote e s2)" by (rule check_zygote_exact)
  with scan(1) show ?thesis by simp
qed

lemma inotify_event_registry:
  "handlers (inotify_event e s) = handlers s \<and>
   map_size (zygote_map s) \<le> map_size (zygote_map (inotify_event e s))"
proof (cases rule: inotify_event_cases [of e s])
  case idle
  then show ?thesis by (simp add: tick_def)
next
  case (scan s2)
  with check_zygote_registry [of e s2] show ?thesis by simp
qed

lemma deliver_exact:
  assumes "timer_exact (lp64 e) s"
    and "map_size (zygote_map s) \<le> map_size (zygote_map (deliver e g s))"
  shows "timer_exact (lp64 e) (deliver e g s)"
proof (cases "handlers s g")
  case SIG_DFL
  with assms(1) show ?thesis by (simp add: deliver_def timer_exact_def is_zygote_done_def)
next
  case SIG_IGN
  with assms(1) show ?thesis by (simp add: deliver_def)
next
  case H_term_thread
  then have eq: "deliver e g s = term_thread s" by (simp add: deliver_def)
  from assms(2) have "map_size (zygote_map s) = 0"
    unfolding eq by (simp add: term_thread_def map_size_def)
  with assms(1) show ?thesis
    unfolding eq by (simp add: term_thread_def timer_exact_def is_zygote_done_def map_size_def)
next
  case H_inotify_event
  then have eq: "deliver e g s = inotify_event e s" by (simp add: deliver_def)
  from assms show ?thesis unfolding eq by (rule inotify_event_exact)
next
  case H_check_zygote
  then have eq: "deliver e g s = check_zygote e s" by (simp add: deliver_def)
  from assms show ?thesis unfolding eq by (rule check_zygote_exact)
qed

lemma timer_exact_step:
  assumes "timer_exact (lp64 e) s" and "monitor_step e inp s = Inr s'"
    and "map_size (zygote_map s) \<le> map_size (zygote_map s')"
  shows "timer_exact (lp64 e) s'"
proof (cases inp)
  case (Signal g)
  show ?thesis
  proof (cases "exited s")
    case True
    with Signal assms show ?thesis by (simp add: monitor_step_def)
  next
    case False
    with Signal assms(2) have s': "s' = deliver e g s" by (simp add: monitor_step_def)
    from assms(1,3) show ?thesis unfolding s' by (rule deliver_exact)
  qed
next
  case (Wait pid status errno)
  show ?thesis
  proof (cases "exited s")
    case True
    with Wait assms show ?thesis by (simp add: monitor_step_def)
  next
    case False
    with Wait assms have "proc_monitor_iter e pid status errno s = Inr s'"
      by (simp add: monitor_step_def)
    from proc_monitor_iter_registry [OF this] assms(1,3) show ?thesis
      by (auto intro: timer_exact_same)
  qed
next
  case Worker
  with assms have "do_check_fork e s = Inr s'" by (simp add: monitor_step_def)
  from do_check_fork_registry [OF this] assms(1) show ?thesis
    by (auto intro: timer_exact_same)
qed

lemma timer_exact_run:
  "timer_exact (lp64 e) s \<Longrightarrow> registry_kept e inps s \<Longrightarrow> run e inps s = Inr s' \<Longrightarrow>
     timer_exact (lp64 e) s'"
proof (induction inps arbitrary: s)
  case Nil
  then show ?case by simp
next
  case (Cons inp inps)
  from Cons.prems(3) obtain s1 where s1: "monitor_step e inp s = Inr s1"
    and r: "run e inps s1 = Inr s'"
    by (auto split: sum.splits)
  from Cons.prems(2) s1 have k: "map_size (zygote_map s) \<le> map_size (zygote_map s1)"
    and k1: "registry_kept e inps s1"
    by simp_all
  from timer_exact_step [OF Cons.prems(1) s1 k] k1 r show ?case
    by (rule Cons.IH)
qed

lemma detach_pid_quiet:
  "detach_pid e pid sig s = Inr s' \<Longrightarrow> handlers s' = handlers s \<and> zygote_map s' = zygote_map s"
  by (auto simp: detach_pid_def emit_def split: sum.splits)

lemma on_sigstop_quiet:
  "on_sigstop e pid s = Inr s' \<Longrightarrow> handlers s' = handlers s \<and> zygote_map s' = zygote_map s"
  by (auto simp: on_sigstop_def is_process_eq tick_def emit_def
        dest!: detach_pid_quiet split: sum.splits if_splits)

lemma on_ptrace_event_quiet:
  assumes "on_ptrace_event e pid event s = Inr s'"
    and "event = PTRACE_EVENT_FORK \<or> event = PTRACE_EVENT_VFORK"
  shows "handlers s' = handlers s \<and> zygote_map s' = zygote_map s"
  using assms
  by (auto simp: on_ptrace_event_def Let_def tick_def emit_def
        dest!: detach_pid_quiet split: sum.splits if_splits)

lemma proc_monitor_iter_quiet:
  assumes "proc_monitor_iter e pid status errno s = Inr s'" and "\<not> terminal_event e status"
  shows "handlers s' = handlers s \<and> zygote_map s' = zygote_map s"
proof -
  let ?s1 = "tick (s\<lparr>sigmask := sigmask s - {SIGTERMTHRD, SIGIO, SIGALRM}\<rparr>)"
  let ?s2 = "?s1\<lparr>sigmask := orig_mask ?s1\<rparr>"
  have f: "zygote_map ?s2 = zygote_map s" "handlers ?s2 = handlers s"
    by (simp_all add: tick_def)
  show ?thesis
  proof (cases "pid < 0")
    case True
    with assms have "s' = (if errno = ECHILD then tick (emit Nanosleep ?s1) else ?s1)"
      by (simp add: proc_monitor_iter_def Let_def)
    then show ?thesis by (simp add: tick_def emit_def)
  next
    case nonneg: False
    show ?thesis
    proof (cases "WIFSTOPPED status")
      case False
      with nonneg assms have "detach_pid e pid 0 ?s2 = Inr s'"
        by (simp add: proc_monitor_iter_def Let_def)
      from detach_pid_quiet [OF this] f show ?thesis by simp
    next
      case stopped: True
      show ?thesis
      proof (cases "WSTOPSIG status = SIGTRAP \<and> WEVENT e status \<noteq> 0")
        case True
        with nonneg stopped assms(1)
        have "on_ptrace_event e pid (WEVENT e status) ?s2 = Inr s'"
          by (simp add: proc_monitor_iter_def Let_def)
        moreover from True stopped assms(2)
        have "WEVENT e status = PTRACE_EVENT_FORK \<or> WEVENT e status = PTRACE_EVENT_VFORK"
          by (auto simp: terminal_event_def)
        ultimately show ?thesis using on_ptrace_event_quiet f by metis
      next
        case noevent: False
        show ?thesis
        proof (cases "WSTOPSIG status = SIGSTOP")
          case True
          with nonneg stopped noevent assms have "on_sigstop e pid ?s2 = Inr s'"
            by (simp add: proc_monitor_iter_def Let_def SIGSTOP_def SIGTRAP_def)
          from on_sigstop_quiet [OF this] f show ?thesis by simp
        next
          case False
          with nonneg stopped noevent assms
          have "s' = emit (PtraceCont pid (WSTOPSIG status)) ?s2"
            by (auto simp: proc_monitor_iter_def Let_def)
          then show ?thesis by (simp add: tick_def emit_def)
        qed
      qed
    qed
  qed
qed

lemma do_check_fork_quiet:
  assumes "do_check_fork e s = Inr s'"
  shows "handlers s' = handlers s \<and> zygote_map s' = zygote_map s"
proof (cases "fork_pid s = 0")
  case True
  with assms show ?thesis by (auto simp: do_check_fork_def Let_def)
next
  case False
  with assms obtain s2 where d: "detach_pid e (fork_pid s) 0 (s\<lparr>fork_pid := 0\<rparr>) = Inr s2"
    and s': "s' = do_check_fork_loop e (fork_pid s) 0 s2"
    by (auto simp: do_check_fork_def Let_def split: sum.splits)
  obtain k us vs where "do_check_fork_loop e (fork_pid s) 0 s2 = adv k (us @ vs) s2"
    using do_check_fork_loop_adv by blast
  with s' detach_pid_quiet [OF d] show ?thesis by simp
qed

lemma discovery_step:
  assumes "installed s" and "discovery e inp" and "monitor_step e inp s = Inr s'"
  shows "installed s' \<and> map_size (zygote_map s) \<le> map_size (zygote_map s')"
proof (cases inp)
  case (Signal g)
  show ?thesis
  proof (cases "exited s")
    case True
    with Signal assms show ?thesis by (simp add: monitor_step_def)
  next
    case False
    with Signal assms(3) have s': "s' = deliver e g s" by (simp add: monitor_step_def)
    from Signal assms(2) consider "g = SIGALRM" | "g = SIGIO" by auto
    then show ?thesis
    proof cases
      case 1
      with assms(1) have "s' = check_zygote e s" unfolding s' by (simp add: deliver_def installed_def)
      with check_zygote_registry [of e s] assms(1) show ?thesis by (simp add: installed_def)
    next
      case 2
      with assms(1) have "s' = inotify_event e s" unfolding s' by (simp add: deliver_def installed_def)
      with inotify_event_registry [of e s] assms(1) show ?thesis by (simp add: installed_def)
    qed
  qed
next
  case (Wait pid status errno)
  show ?thesis
  proof (cases "exited s")
    case True
    with Wait assms show ?thesis by (simp add: monitor_step_def)
  next
    case False
    with Wait assms have "proc_monitor_iter e pid status errno s = Inr s'"
      by (simp add: monitor_step_def)
    moreover from Wait assms(2) have "\<not> terminal_event e status" by simp
    ultimately have "handlers s' = handlers s \<and> zygote_map s' = zygote_map s"
      by (rule proc_monitor_iter_quiet)
    with assms(1) show ?thesis by (simp add: installed_def)
  qed
next
  case Worker
  with assms have "do_check_fork e s = Inr s'" by (simp add: monitor_step_def)
  from do_check_fork_quiet [OF this] assms(1) show ?thesis by (simp add: installed_def)
qed

lemma discovery_kept:
  "installed s \<Longrightarrow> \<forall>inp\<in>set inps. discovery e inp \<Longrightarrow> registry_kept e inps s"
proof (induction inps arbitrary: s)
  case Nil
  show ?case by simp
next
  case (Cons inp inps)
  show ?case
  proof (cases "monitor_step e inp s")
    case (Inl err)
    then show ?thesis by simp
  next
    case (Inr s1)
    from Cons.prems have d: "discovery e inp" by simp
    from discovery_step [OF Cons.prems(1) d Inr]
    have i: "installed s1" and k: "map_size (zygote_map s) \<le> map_size (zygote_map s1)"
      by simp_all
    from Cons.prems(2) have "\<forall>inp\<in>set inps. discovery e inp" by simp
    from Cons.IH [OF i this] k Inr show ?thesis by simp
  qed
qed

lemma setup_inotify_handlers: "handlers (setup_inotify e s) = handlers s"
  by (simp add: setup_inotify_def Let_def tick_def)

lemma proc_monitor_init_installed: "installed (proc_monitor_init e s0)"
  using check_zygote_registry
  by (simp add: proc_monitor_init_def Let_def installed_def setup_inotify_handlers)

lemma detach_pid_trace:
  "detach_pid e pid sig s = Inr s' \<Longrightarrow>
     zygote_map s' = zygote_map s \<and> itimer s' = itimer s \<and>
     trace s' = trace s @ [PtraceDetach pid sig]"
  by (auto simp: detach_pid_def emit_def split: sum.splits)

text \<open>
  Claim C1, as the code has it. After the start of \<open>proc_monitor\<close> the timer is armed
  if and only if the registry holds fewer zygotes than expected (2 under \<open>__LP64__\<close>, 1
  otherwise), and so it is after every sequence of signals, wait results and worker runs
  in which the registry never shrinks: in particular after every sequence of discoveries
  (ticks of the timer, inotify signals, workers, and wait results that are not terminal
  ptrace events). After every sequence whatever, an armed timer still means that the
  registry is short: every \<open>check_zygote\<close> that finds enough zygotes disarms it. A
  terminal ptrace event of a registered zygote reads the event message, erases the zygote
  from the registry and detaches it, and the timer stays as it was.
\<close>

theorem timer_armed_only_below_expected:
  assumes "proc_monitor e inps s0 = Inr s"
  shows "(itimer (proc_monitor_init e s0) \<noteq> 0 \<longleftrightarrow>
            \<not> is_zygote_done (lp64 e) (proc_monitor_init e s0)) \<and>
         (itimer s \<noteq> 0 \<longrightarrow> \<not> is_zygote_done (lp64 e) s) \<and>
         (registry_kept e inps (proc_monitor_init e s0) \<longrightarrow>
            (itimer s \<noteq> 0 \<longleftrightarrow> \<not> is_zygote_done (lp64 e) s)) \<and>
         (list_all (discovery e) inps \<longrightarrow>
            (itimer s \<noteq> 0 \<longleftrightarrow> \<not> is_zygote_done (lp64 e) s)) \<and>
         (\<forall>t. is_zygote_done (lp64 e) (check_zygote e t) \<longrightarrow> itimer (check_zygote e t) = 0) \<and>
         (\<forall>t pid status errno t'.
             0 \<le> pid \<and> WIFSTOPPED status \<and> WSTOPSIG status = SIGTRAP \<and>
             WEVENT e status \<noteq> 0 \<and> WEVENT e status \<noteq> PTRACE_EVENT_FORK \<and>
             WEVENT e status \<noteq> PTRACE_EVENT_VFORK \<and> map_count (zygote_map t) pid \<noteq> 0 \<and>
             proc_monitor_iter e pid status errno t = Inr t' \<longrightarrow>
             zygote_map t' = map_erase (zygote_map t) pid \<and> itimer t' = itimer t \<and>
             trace t' = trace t @ [PtraceGetEventMsg pid, PtraceDetach pid 0])"
proof -
  let ?i = "proc_monitor_init e s0"
  have start: "timer_inv (lp64 e) ?i"
    using proc_monitor_init_timer [of e s0] by (simp add: timer_inv_def)
  have start2: "timer_exact (lp64 e) ?i"
    using proc_monitor_init_timer [of e s0] by (simp add: timer_exact_def)
  from assms have run: "run e inps ?i = Inr s"
    by (simp add: proc_monitor_def)
  from timer_inv_run [OF start this]
  have later: "itimer s \<noteq> 0 \<longrightarrow> \<not> is_zygote_done (lp64 e) s"
    by (simp add: timer_inv_def)
  have kept: "registry_kept e inps ?i \<longrightarrow> (itimer s \<noteq> 0 \<longleftrightarrow> \<not> is_zygote_done (lp64 e) s)"
  proof
    assume "registry_kept e inps ?i"
    from timer_exact_run [OF start2 this run]
    show "itimer s \<noteq> 0 \<longleftrightarrow> \<not> is_zygote_done (lp64 e) s"
      by (simp add: timer_exact_def)
  qed
  have disc: "list_all (discovery e) inps \<longrightarrow> (itimer s \<noteq> 0 \<longleftrightarrow> \<not> is_zygote_done (lp64 e) s)"
  proof
    assume "list_all (discovery e) inps"
    then have "\<forall>inp\<in>set inps. discovery e inp" by (simp add: list_all_iff)
    from discovery_kept [OF proc_monitor_init_installed this]
    have "registry_kept e inps ?i" .
    with kept show "itimer s \<noteq> 0 \<longleftrightarrow> \<not> is_zygote_done (lp64 e) s" by blast
  qed
  have scan: "\<forall>t. is_zygote_done (lp64 e) (check_zygote e t) \<longrightarrow> itimer (check_zygote e t) = 0"
    using check_zygote_disarms by blast
  have loss: "zygote_map t' = map_erase (zygote_map t) pid \<and> itimer t' = itimer t \<and>
              trace t' = trace t @ [PtraceGetEventMsg pid, PtraceDetach pid 0]"
    if h: "0 \<le> pid" "WIFSTOPPED status" "WSTOPSIG status = SIGTRAP" "WEVENT e status \<noteq> 0"
      "WEVENT e status \<noteq> PTRACE_EVENT_FORK" "WEVENT e status \<noteq> PTRACE_EVENT_VFORK"
      "map_count (zygote_map t) pid \<noteq> 0"
      "proc_monitor_iter e pid status errno t = Inr t'"
    for t pid status errno t'
  proof -
    let ?t2 = "(tick (t\<lparr>sigmask := sigmask t - {SIGTERMTHRD, SIGIO, SIGALRM}\<rparr>))
                 \<lparr>sigmask := orig_mask t\<rparr>"
    let ?t3 = "tick (emit (PtraceGetEventMsg pid) ?t2)"
    from h have "on_ptrace_event e pid (WEVENT e status) ?t2 = Inr t'"
      by (simp add: proc_monitor_iter_def Let_def tick_def)
    with h(5-7) have "detach_pid e pid 0 (?t3\<lparr>zygote_map := map_erase (zygote_map ?t3) pid\<rparr>) = Inr t'"
      by (simp add: on_ptrace_event_def Let_def tick_def emit_def)
    from detach_pid_trace [OF this] show ?thesis
      by (simp add: tick_def emit_def)
  qed
  from proc_monitor_init_timer [of e s0] later kept disc scan loss show ?thesis
    by blast
qed

text \<open>
  In \<open>late_env\<close> the start finds no zygote and arms the timer; the first tick finds the
  zygote 1000 and disarms it. In \<open>early_env\<close> the tick finds nothing and the timer
  stays armed with the registry empty.
\<close>

theorem timer_armed_only_below_expected_witness:
  "armed_and_done late_env (proc_monitor late_env [] boot_state) = Some (True, False) \<and>
   list_all (discovery late_env) [Signal SIGALRM] \<and>
   registry_kept late_env [Signal SIGALRM] (proc_monitor_init late_env boot_state) \<and>
   (\<exists>s. proc_monitor late_env [Signal SIGALRM] boot_state = Inr s \<and>
        itimer s = 0 \<and> is_zygote_done (lp64 late_env) s) \<and>
   (\<exists>s. proc_monitor early_env [Signal SIGALRM] boot_state = Inr s \<and>
        itimer s = 250000 \<and> \<not> is_zygote_done (lp64 early_env) s)"
proof -
  have a: "armed_and_done late_env (proc_monitor late_env [] boot_state) = Some (True, False)"
    by (simp add: armed_and_done_def proc_monitor_def monitor_defs late_env_def target_env_def
          boot_state_def)
  have d: "list_all (discovery late_env) [Signal SIGALRM]" by simp
  have k: "registry_kept late_env [Signal SIGALRM] (proc_monitor_init late_env boot_state)"
    by (simp add: monitor_defs deliver_def late_env_def target_env_def boot_state_def)
  have "\<exists>s. proc_monitor late_env [Signal SIGALRM] boot_state = Inr s \<and> itimer s = 0"
    by (simp add: proc_monitor_def monitor_defs deliver_def late_env_def target_env_def
          boot_state_def)
  then obtain s where
    r: "proc_monitor late_env [Signal SIGALRM] boot_state = Inr s" and t: "itimer s = 0"
    by blast
  from timer_armed_only_below_expected [OF r] k t
  have "is_zygote_done (lp64 late_env) s"
    by simp
  with r t have b: "\<exists>s. proc_monitor late_env [Signal SIGALRM] boot_state = Inr s \<and>
        itimer s = 0 \<and> is_zygote_done (lp64 late_env) s"
    by blast
  have "\<exists>s. proc_monitor early_env [Signal SIGALRM] boot_state = Inr s \<and> itimer s = 250000"
    by (simp add: proc_monitor_def monitor_defs deliver_def early_env_def target_env_def
          boot_state_def)
  then obtain s' where
    r': "proc_monitor early_env [Signal SIGALRM] boot_state = Inr s'"
    and t': "itimer s' = 250000"
    by blast
  from timer_armed_only_below_expected [OF r'] t'
  have "\<not> is_zygote_done (lp64 early_env) s'"
    by simp
  with r' t' have c: "\<exists>s. proc_monitor early_env [Signal SIGALRM] boot_state = Inr s \<and>
        itimer s = 250000 \<and> \<not> is_zygote_done (lp64 early_env) s"
    by blast
  from a d k b c show ?thesis by blast
qed

text \<open>
  Claim C1 as stated (armed if and only if short of zygotes; re-armed on a loss) fails.
  On a 32-bit system the start finds the zygote 1000 and leaves the timer disarmed with
  the one zygote expected; then the zygote exits (a trace-exit event), the registry is
  empty, \<open>is_zygote_done\<close> no longer holds, and the timer is still disarmed.
\<close>

theorem timer_not_rearmed_counterexample:
  "armed_and_done target_env (proc_monitor target_env [] boot_state) = Some (False, True) \<and>
   armed_and_done target_env
     (proc_monitor target_env [Wait 1000 (stop_status PTRACE_EVENT_EXIT SIGTRAP) 0] boot_state) =
     Some (False, False)"
  by (simp add: armed_and_done_def proc_monitor_def monitor_defs target_env_def boot_state_def)

end
